theory Spec2Isabelle
  imports Complex_Main
begin

section \<open>JavaScript numbers\<close>

text \<open>
  The simulation computes with JavaScript numbers (IEEE 754 doubles). They are modelled
  as a real number or one of the three special values. An arithmetic result whose
  magnitude reaches the overflow bound of the double format becomes an infinity, and the
  special values propagate as ECMAScript prescribes. The operations \<open>js_add\<close>,
  \<open>js_sub\<close>, \<open>js_mul\<close>, \<open>js_div\<close>, \<open>js_sqrt\<close> and \<open>js_pow\<close> keep a finite result exact;
  \<open>to_double\<close> rounds it to the nearest double. Evaporation, whose decay depends on the
  rounding of \<open>1 - rho\<close>, is embedded both ways. The two zeros are one value.
\<close>

datatype jsnum = Num real | PInf | NInf | NaN

text \<open>\<^verbatim>\<open>Number.MAX_VALUE\<close>, the largest finite double.\<close>

definition MAX_VALUE :: real where
  "MAX_VALUE = (2 ^ 53 - 1) * 2 ^ 971"

text \<open>A real result at or beyond this bound rounds to an infinity.\<close>

definition overflow_bound :: real where
  "overflow_bound = 2 ^ 1024 - 2 ^ 970"

definition js_fin :: "real \<Rightarrow> jsnum" where
  "js_fin r =
     (if overflow_bound \<le> r then PInf
      else if r \<le> - overflow_bound then NInf
      else Num r)"

fun js_neg :: "jsnum \<Rightarrow> jsnum" where
  "js_neg (Num a) = Num (- a)"
| "js_neg PInf = NInf"
| "js_neg NInf = PInf"
| "js_neg NaN = NaN"

fun js_add :: "jsnum \<Rightarrow> jsnum \<Rightarrow> jsnum" where
  "js_add (Num a) (Num b) = js_fin (a + b)"
| "js_add NaN _ = NaN"
| "js_add _ NaN = NaN"
| "js_add PInf NInf = NaN"
| "js_add NInf PInf = NaN"
| "js_add PInf _ = PInf"
| "js_add _ PInf = PInf"
| "js_add NInf _ = NInf"
| "js_add _ NInf = NInf"

definition js_sub :: "jsnum \<Rightarrow> jsnum \<Rightarrow> jsnum" where
  "js_sub a b = js_add a (js_neg b)"

text \<open>An infinity times or over a finite number: the sign of the result.\<close>

definition js_inf :: "bool \<Rightarrow> jsnum" where
  "js_inf positive = (if positive then PInf else NInf)"

fun js_mul :: "jsnum \<Rightarrow> jsnum \<Rightarrow> jsnum" where
  "js_mul (Num a) (Num b) = js_fin (a * b)"
| "js_mul NaN _ = NaN"
| "js_mul _ NaN = NaN"
| "js_mul (Num a) PInf = (if a = 0 then NaN else js_inf (0 < a))"
| "js_mul (Num a) NInf = (if a = 0 then NaN else js_inf (a < 0))"
| "js_mul PInf (Num b) = (if b = 0 then NaN else js_inf (0 < b))"
| "js_mul NInf (Num b) = (if b = 0 then NaN else js_inf (b < 0))"
| "js_mul PInf PInf = PInf"
| "js_mul NInf NInf = PInf"
| "js_mul PInf NInf = NInf"
| "js_mul NInf PInf = NInf"

fun js_div :: "jsnum \<Rightarrow> jsnum \<Rightarrow> jsnum" where
  "js_div (Num a) (Num b) =
     (if b = 0 then (if a = 0 then NaN else js_inf (0 < a)) else js_fin (a / b))"
| "js_div NaN _ = NaN"
| "js_div _ NaN = NaN"
| "js_div (Num a) PInf = Num 0"
| "js_div (Num a) NInf = Num 0"
| "js_div PInf (Num b) = js_inf (0 \<le> b)"
| "js_div NInf (Num b) = js_inf (b < 0)"
| "js_div PInf PInf = NaN"
| "js_div PInf NInf = NaN"
| "js_div NInf PInf = NaN"
| "js_div NInf NInf = NaN"

text \<open>The comparisons \<^verbatim>\<open><\<close>, \<^verbatim>\<open><=\<close> and \<^verbatim>\<open>>\<close>: false whenever an operand is NaN.\<close>

fun js_lt :: "jsnum \<Rightarrow> jsnum \<Rightarrow> bool" where
  "js_lt (Num a) (Num b) = (a < b)"
| "js_lt NaN _ = False"
| "js_lt _ NaN = False"
| "js_lt PInf _ = False"
| "js_lt _ NInf = False"
| "js_lt _ PInf = True"
| "js_lt NInf _ = True"

fun js_le :: "jsnum \<Rightarrow> jsnum \<Rightarrow> bool" where
  "js_le (Num a) (Num b) = (a \<le> b)"
| "js_le NaN _ = False"
| "js_le _ NaN = False"
| "js_le _ PInf = True"
| "js_le NInf _ = True"
| "js_le PInf _ = False"
| "js_le _ NInf = False"

definition js_gt :: "jsnum \<Rightarrow> jsnum \<Rightarrow> bool" where
  "js_gt a b = js_lt b a"

text \<open>\<^verbatim>\<open>Math.sqrt\<close>.\<close>

fun js_sqrt :: "jsnum \<Rightarrow> jsnum" where
  "js_sqrt (Num a) = (if a < 0 then NaN else Num (sqrt a))"
| "js_sqrt PInf = PInf"
| "js_sqrt NInf = NaN"
| "js_sqrt NaN = NaN"

text \<open>
  \<^verbatim>\<open>Math.pow\<close>, by the cases of ECMAScript's \<^verbatim>\<open>Number::exponentiate\<close>: a zero exponent
  gives 1 for every base, a NaN operand gives NaN otherwise, a negative base needs an
  integral exponent.
\<close>

definition is_integral :: "real \<Rightarrow> bool" where
  "is_integral e = (e = of_int \<lfloor>e\<rfloor>)"

definition is_odd_integral :: "real \<Rightarrow> bool" where
  "is_odd_integral e = (is_integral e \<and> odd \<lfloor>e\<rfloor>)"

fun js_pow :: "jsnum \<Rightarrow> jsnum \<Rightarrow> jsnum" where
  "js_pow _ NaN = NaN"
| "js_pow b (Num e) =
     (if e = 0 then Num 1
      else case b of
        NaN \<Rightarrow> NaN
      | PInf \<Rightarrow> (if 0 < e then PInf else Num 0)
      | NInf \<Rightarrow> (if 0 < e then (if is_odd_integral e then NInf else PInf) else Num 0)
      | Num a \<Rightarrow>
          (if a = 0 then (if 0 < e then Num 0 else PInf)
           else if 0 < a then js_fin (a powr e)
           else if \<not> is_integral e then NaN
           else if is_odd_integral e then js_fin (- ((- a) powr e))
           else js_fin ((- a) powr e)))"
| "js_pow b PInf =
     (case b of
        NaN \<Rightarrow> NaN
      | Num a \<Rightarrow> (if 1 < \<bar>a\<bar> then PInf else if \<bar>a\<bar> = 1 then NaN else Num 0)
      | _ \<Rightarrow> PInf)"
| "js_pow b NInf =
     (case b of
        NaN \<Rightarrow> NaN
      | Num a \<Rightarrow> (if 1 < \<bar>a\<bar> then Num 0 else if \<bar>a\<bar> = 1 then NaN else PInf)
      | _ \<Rightarrow> Num 0)"

subsection \<open>Rounding to double precision\<close>

text \<open>
  A double has 53 significant bits and a binary exponent from \<open>-1022\<close>, which the
  subnormal numbers share, to 1023. \<open>floor_log2 x\<close> is the exponent \<open>e\<close> with
  \<open>2^e \<le> x < 2^(e+1)\<close>, found by halving or doubling, \<open>binade x\<close> the exponent of the
  binade of \<open>x\<close>, \<open>ulp x\<close> the distance between neighbouring doubles there, and
  \<open>round_double x\<close> the multiple of \<open>ulp x\<close> nearest to \<open>x\<close>, the even one of two equally
  near multiples. \<open>to_double\<close> is this rounding on JavaScript numbers, with overflow to
  an infinity: an operation on doubles returns its exact result rounded.
\<close>

function floor_log2 :: "real \<Rightarrow> int" where
  "floor_log2 x =
     (if 2 \<le> x then floor_log2 (x / 2) + 1
      else if 0 < x \<and> x < 1 then floor_log2 (2 * x) - 1
      else 0)"
  by pat_completeness auto
termination
proof (relation "measure (\<lambda>x. if 1 \<le> x \<and> x < 2 then 0 else 1 + nat \<lceil>\<bar>log 2 x\<bar>\<rceil>)")
  show "wf (measure (\<lambda>x::real. if 1 \<le> x \<and> x < 2 then 0 else 1 + nat \<lceil>\<bar>log 2 x\<bar>\<rceil>))" by simp
next
  fix x :: real
  assume a: "2 \<le> x"
  then have l: "1 \<le> log 2 x" by (simp add: le_log_iff)
  have "log 2 (x / 2) = log 2 x - 1" using a by (simp add: log_divide)
  with l have "\<lceil>\<bar>log 2 (x / 2)\<bar>\<rceil> = \<lceil>\<bar>log 2 x\<bar>\<rceil> - 1" by simp
  moreover have "1 \<le> \<lceil>\<bar>log 2 x\<bar>\<rceil>" using l by (simp add: le_ceiling_iff)
  ultimately have "nat \<lceil>\<bar>log 2 (x / 2)\<bar>\<rceil> < nat \<lceil>\<bar>log 2 x\<bar>\<rceil>" by simp
  with a show "(x / 2, x) \<in> measure (\<lambda>x. if 1 \<le> x \<and> x < 2 then 0 else 1 + nat \<lceil>\<bar>log 2 x\<bar>\<rceil>)"
    by simp
next
  fix x :: real
  assume "\<not> 2 \<le> x" and a: "0 < x \<and> x < 1"
  show "(2 * x, x) \<in> measure (\<lambda>x. if 1 \<le> x \<and> x < 2 then 0 else 1 + nat \<lceil>\<bar>log 2 x\<bar>\<rceil>)"
  proof (cases "1 \<le> 2 * x")
    case True
    with a show ?thesis by simp
  next
    case False
    then have h: "2 * x < 1" by simp
    then have "log 2 (2 * x) < 0" using a by simp
    moreover have e: "log 2 (2 * x) = 1 + log 2 x" using a by (simp add: log_mult)
    ultimately have l: "log 2 x < - 1" by simp
    then have "\<bar>log 2 (2 * x)\<bar> = \<bar>log 2 x\<bar> - 1" using e by simp
    then have "\<lceil>\<bar>log 2 (2 * x)\<bar>\<rceil> = \<lceil>\<bar>log 2 x\<bar>\<rceil> - 1" by (simp only: ceiling_diff_one)
    moreover have "1 \<le> \<lceil>\<bar>log 2 x\<bar>\<rceil>" using l by (simp add: le_ceiling_iff)
    ultimately have "nat \<lceil>\<bar>log 2 (2 * x)\<bar>\<rceil> < nat \<lceil>\<bar>log 2 x\<bar>\<rceil>" by simp
    with a h show ?thesis by simp
  qed
qed

declare floor_log2.simps [simp del]

definition binade :: "real \<Rightarrow> int" where
  "binade x = max (- 1022) (floor_log2 \<bar>x\<bar>)"

definition ulp :: "real \<Rightarrow> real" where
  "ulp x = 2 powi (binade x - 52)"

definition round_even :: "real \<Rightarrow> int" where
  "round_even m =
     (let f = \<lfloor>m\<rfloor>; d = m - of_int f
      in if d < 1 / 2 then f
         else if 1 / 2 < d then f + 1
         else if even f then f else f + 1)"

definition round_double :: "real \<Rightarrow> real" where
  "round_double x = of_int (round_even (x / ulp x)) * ulp x"

fun to_double :: "jsnum \<Rightarrow> jsnum" where
  "to_double (Num x) = js_fin (round_double x)"
| "to_double PInf = PInf"
| "to_double NInf = NInf"
| "to_double NaN = NaN"

section \<open>Position: a grid cell with two pheromone channels\<close>

datatype cell_type = TYPE_HOME | TYPE_FOOD | TYPE_NORMAL | TYPE_BARRIER

datatype ptype = P_TYPE_FOOD | P_TYPE_HOME

text \<open>
  Cells are objects shared by the grid, the check list and the ants' paths, and are
  compared by identity (\<^verbatim>\<open>===\<close>). A cell is therefore a reference into a store of
  \<open>Position\<close> records. Of the cell's DOM element only the opacity written by
  \<^verbatim>\<open>showPheromone\<close> and \<^verbatim>\<open>changeType\<close> is kept (\<open>None\<close>: never written); the CSS
  classes and the click handler are presentation only.
\<close>

type_synonym ref = nat

record Position =
  pos_x :: int
  pos_y :: int
  pheromone :: "ptype \<Rightarrow> jsnum"
  type :: cell_type
  opacity :: "jsnum option"

text \<open>
  The constructor \<^verbatim>\<open>Position(world, x, y, fp, hp, type)\<close>; an argument left out
  (\<open>None\<close>) is 0, or Normal for the type.
\<close>

definition new_Position ::
  "int \<Rightarrow> int \<Rightarrow> jsnum option \<Rightarrow> jsnum option \<Rightarrow> cell_type option \<Rightarrow> Position" where
  "new_Position x y fp hp t =
     \<lparr>pos_x = x, pos_y = y,
      pheromone = (\<lambda>c. case c of
                      P_TYPE_FOOD \<Rightarrow> (case fp of Some v \<Rightarrow> v | None \<Rightarrow> Num 0)
                    | P_TYPE_HOME \<Rightarrow> (case hp of Some v \<Rightarrow> v | None \<Rightarrow> Num 0)),
      type = (case t of Some ty \<Rightarrow> ty | None \<Rightarrow> TYPE_NORMAL),
      opacity = None\<rparr>"

definition getP :: "Position \<Rightarrow> ptype \<Rightarrow> jsnum" where
  "getP p pType = pheromone p pType"

text \<open>
  \<^verbatim>\<open>Position.prototype.move(direction, map, deep)\<close>: the cell \<open>deep\<close> steps away, or
  \<open>None\<close> (\<^verbatim>\<open>null\<close>) outside the grid. The grid is an array of columns, all of the
  length of column 0 (as \<^verbatim>\<open>World.prototype._init\<close> builds it).
\<close>

definition Position_move ::
  "Position \<Rightarrow> int \<times> int \<Rightarrow> ref list list \<Rightarrow> int \<Rightarrow> ref option" where
  "Position_move p direction m deep =
     (let x = pos_x p + fst direction * deep;
          y = pos_y p + snd direction * deep
      in if x < 0 \<or> y < 0 \<or> int (length m) \<le> x \<or> int (length (m ! 0)) \<le> y
         then None
         else Some (m ! nat x ! nat y))"

text \<open>
  \<^verbatim>\<open>evaporatePheromone(rho)\<close>, statement by statement: both channels are multiplied
  by \<open>1 - rho\<close>, then each channel below \<open>1e-10\<close> is set to 0.
\<close>

definition evaporatePheromone :: "jsnum \<Rightarrow> Position \<Rightarrow> Position" where
  "evaporatePheromone rho_arg p =
     (if type p = TYPE_NORMAL then
        let p1 = p\<lparr>pheromone := (pheromone p)
                   (P_TYPE_FOOD := js_mul (pheromone p P_TYPE_FOOD) (js_sub (Num 1) rho_arg))\<rparr>;
            p2 = p1\<lparr>pheromone := (pheromone p1)
                   (P_TYPE_HOME := js_mul (pheromone p1 P_TYPE_HOME) (js_sub (Num 1) rho_arg))\<rparr>;
            p3 = (if js_lt (pheromone p2 P_TYPE_FOOD) (Num (1 / 10 ^ 10))
                  then p2\<lparr>pheromone := (pheromone p2)(P_TYPE_FOOD := Num 0)\<rparr>
                  else p2);
            p4 = (if js_lt (pheromone p3 P_TYPE_HOME) (Num (1 / 10 ^ 10))
                  then p3\<lparr>pheromone := (pheromone p3)(P_TYPE_HOME := Num 0)\<rparr>
                  else p3)
        in p4
      else p)"

text \<open>
  The same function in the arithmetic of doubles: the difference \<open>1 - rho\<close>, the two
  products and the literal \<^verbatim>\<open>1e-10\<close> are each rounded to the nearest double.
\<close>

definition evaporatePheromone_double :: "jsnum \<Rightarrow> Position \<Rightarrow> Position" where
  "evaporatePheromone_double rho_arg p =
     (if type p = TYPE_NORMAL then
        let p1 = p\<lparr>pheromone := (pheromone p)
                   (P_TYPE_FOOD := to_double (js_mul (pheromone p P_TYPE_FOOD)
                                      (to_double (js_sub (Num 1) rho_arg))))\<rparr>;
            p2 = p1\<lparr>pheromone := (pheromone p1)
                   (P_TYPE_HOME := to_double (js_mul (pheromone p1 P_TYPE_HOME)
                                      (to_double (js_sub (Num 1) rho_arg))))\<rparr>;
            p3 = (if js_lt (pheromone p2 P_TYPE_FOOD) (to_double (Num (1 / 10 ^ 10)))
                  then p2\<lparr>pheromone := (pheromone p2)(P_TYPE_FOOD := Num 0)\<rparr>
                  else p2);
            p4 = (if js_lt (pheromone p3 P_TYPE_HOME) (to_double (Num (1 / 10 ^ 10)))
                  then p3\<lparr>pheromone := (pheromone p3)(P_TYPE_HOME := Num 0)\<rparr>
                  else p3)
        in p4
      else p)"

definition addPheromone :: "jsnum \<Rightarrow> ptype \<Rightarrow> Position \<Rightarrow> Position" where
  "addPheromone amount pType p =
     (if type p = TYPE_NORMAL
      then p\<lparr>pheromone := (pheromone p)(pType := js_add (pheromone p pType) amount)\<rparr>
      else p)"

definition showPheromone :: "jsnum \<Rightarrow> ptype \<Rightarrow> Position \<Rightarrow> Position" where
  "showPheromone maxVal showType p =
     (if type p = TYPE_NORMAL then
        let pv = pheromone p showType;
            a = (if js_gt maxVal (Num 0) then js_div pv maxVal else Num 0);
            a1 = (if js_gt a (Num 1) then Num 1 else a);
            a2 = (if js_lt a1 (Num 0) then Num 0 else a1)
        in p\<lparr>opacity := Some a2\<rparr>
      else p)"

definition changeType :: "cell_type \<Rightarrow> Position \<Rightarrow> Position" where
  "changeType t p =
     (let p1 = p\<lparr>type := t, opacity := Some (Num 1)\<rparr>;
          p2 = (if t = TYPE_BARRIER then p1\<lparr>pheromone := (\<lambda>_. Num 0)\<rparr> else p1);
          p3 = (if t = TYPE_FOOD
                then p2\<lparr>pheromone :=
                       (\<lambda>c. case c of P_TYPE_FOOD \<Rightarrow> Num MAX_VALUE | P_TYPE_HOME \<Rightarrow> Num 0)\<rparr>
                else p2)
      in p3)"

section \<open>World: the grid, its parameters and the check list\<close>

text \<open>
  The algorithm's parameters are static properties of \<^verbatim>\<open>World\<close>, written by the
  settings form and read by every ant and cell. \<open>Direction_M\<close> is the table of movement
  offsets \<^verbatim>\<open>Direction.M\<close>, which the model takes as given.
\<close>

record Params =
  alpha :: jsnum
  beta :: jsnum
  rho :: jsnum
  Q :: jsnum
  tau0 :: jsnum
  ANT_NUMBER :: int
  maxPathLength :: int
  maxPathLengthMax :: int
  stepsPerTick :: int
  showPheromoneType :: ptype
  Direction_M :: "(int \<times> int) list"

text \<open>
  The world: the grid \<^verbatim>\<open>map\<close> (here \<open>wmap\<close>) as an array of columns of cell
  references, the check list, the home cell and the store of the cells. The pixel sizes
  and the cell selected in the placement popup play no part in the simulation and are
  left out.
\<close>

record World =
  wmap :: "ref list list"
  checkList :: "ref list"
  homePosition :: ref
  cells :: "ref \<Rightarrow> Position"

fun getCheckedIndex_from :: "ref list \<Rightarrow> ref \<Rightarrow> int \<Rightarrow> int" where
  "getCheckedIndex_from [] position i = - 1"
| "getCheckedIndex_from (c # cs) position i =
     (if position = c then i else getCheckedIndex_from cs position (i + 1))"

definition getCheckedIndex :: "World \<Rightarrow> ref \<Rightarrow> int" where
  "getCheckedIndex w position = getCheckedIndex_from (checkList w) position 0"

text \<open>\<^verbatim>\<open>xs.splice(idx, 1)\<close>: the element at \<open>idx\<close> is removed.\<close>

definition splice1 :: "nat \<Rightarrow> 'a list \<Rightarrow> 'a list" where
  "splice1 idx xs = take idx xs @ drop (Suc idx) xs"

definition addCheckList :: "World \<Rightarrow> ref \<Rightarrow> World" where
  "addCheckList w position =
     (let idx = getCheckedIndex w position;
          cl = (if 0 \<le> idx then splice1 (nat idx) (checkList w) else checkList w)
      in w\<lparr>checkList := cl @ [position]\<rparr>)"

text \<open>A sequence of \<^verbatim>\<open>addCheckList\<close> calls, in order.\<close>

fun addCheckList_all :: "World \<Rightarrow> ref list \<Rightarrow> World" where
  "addCheckList_all w [] = w"
| "addCheckList_all w (p # ps) = addCheckList_all (addCheckList w p) ps"

text \<open>
  \<^verbatim>\<open>World.prototype.evaporateAndRender\<close>. The first loop evaporates every listed cell
  and tracks the largest displayed value among the Normal ones; the second hands each
  listed cell its opacity.
\<close>

fun evaporate_loop ::
  "Params \<Rightarrow> ref list \<Rightarrow> (ref \<Rightarrow> Position) \<Rightarrow> jsnum \<Rightarrow> (ref \<Rightarrow> Position) \<times> jsnum" where
  "evaporate_loop P [] h maxP = (h, maxP)"
| "evaporate_loop P (pos # rest) h maxP =
     (let h1 = h(pos := evaporatePheromone (rho P) (h pos));
          p = getP (h1 pos) (showPheromoneType P)
      in evaporate_loop P rest h1
           (if type (h1 pos) = TYPE_NORMAL \<and> js_gt p maxP then p else maxP))"

fun render_loop ::
  "Params \<Rightarrow> ref list \<Rightarrow> jsnum \<Rightarrow> (ref \<Rightarrow> Position) \<Rightarrow> (ref \<Rightarrow> Position)" where
  "render_loop P [] renderMax h = h"
| "render_loop P (pos # rest) renderMax h =
     render_loop P rest renderMax
       (h(pos := showPheromone renderMax (showPheromoneType P) (h pos)))"

definition evaporateAndRender :: "Params \<Rightarrow> World \<Rightarrow> World" where
  "evaporateAndRender P w =
     (let (h, maxP) = evaporate_loop P (checkList w) (cells w) (Num 0);
          renderMax = (if js_gt maxP (Num 0) then maxP else Num 1)
      in w\<lparr>cells := render_loop P (checkList w) renderMax h\<rparr>)"

text \<open>
  Notions of the specification. \<open>clamp_noise\<close> is the clamp of evaporation (a value
  below \<open>1e-10\<close> becomes 0), \<open>clamp_unit\<close> is \<open>clamp(x, 0, 1)\<close>, and
  \<open>claimed_intensity\<close> is the normalised intensity as the specification words it,
  \<open>clamp(value / max(maxP, 1), 0, 1)\<close>.
\<close>

definition clamp_noise :: "jsnum \<Rightarrow> jsnum" where
  "clamp_noise v = (if js_lt v (Num (1 / 10 ^ 10)) then Num 0 else v)"

definition clamp_unit :: "jsnum \<Rightarrow> jsnum" where
  "clamp_unit a = (if js_gt a (Num 1) then Num 1 else if js_lt a (Num 0) then Num 0 else a)"

definition claimed_intensity :: "jsnum \<Rightarrow> jsnum \<Rightarrow> jsnum" where
  "claimed_intensity v maxP = clamp_unit (js_div v (if js_gt maxP (Num 1) then maxP else Num 1))"

section \<open>Ant: path construction, selection and deposit\<close>

datatype ant_status = STATUS_FIND_FOOD | STATUS_CARRY_FOOD

record Ant =
  path :: "ref list"
  status :: ant_status
  ant_home :: ref
  maxPath :: int

text \<open>
  \<^verbatim>\<open>Ant.rouletteWheel\<close>, with the value \<open>r\<close> drawn by \<^verbatim>\<open>Math.random()\<close> as an
  argument. The loop returns the first index whose running sum reaches \<open>r\<close>.
\<close>

fun rouletteWheel_loop :: "jsnum list \<Rightarrow> jsnum \<Rightarrow> jsnum \<Rightarrow> int \<Rightarrow> int option" where
  "rouletteWheel_loop [] r cumulative i = None"
| "rouletteWheel_loop (p # ps) r cumulative i =
     (let c = js_add cumulative p
      in if js_le r c then Some i else rouletteWheel_loop ps r c (i + 1))"

definition rouletteWheel :: "jsnum list \<Rightarrow> real \<Rightarrow> int" where
  "rouletteWheel probs r =
     (case rouletteWheel_loop probs (Num r) (Num 0) 0 of
        Some i \<Rightarrow> i
      | None \<Rightarrow> int (length probs) - 1)"

text \<open>The running sum of the first \<open>k\<close> probabilities, as the loop accumulates it.\<close>

definition cumulative :: "jsnum list \<Rightarrow> nat \<Rightarrow> jsnum" where
  "cumulative probs k = foldl js_add (Num 0) (take k probs)"

text \<open>
  \<^verbatim>\<open>Ant.prototype._init\<close>: back to the home cell, with a maximal path length drawn
  from the configured range by the random value \<open>r\<close>.
\<close>

definition Ant_init :: "Params \<Rightarrow> World \<Rightarrow> Ant \<Rightarrow> real \<Rightarrow> Ant" where
  "Ant_init P w a r =
     a\<lparr>path := [homePosition w],
       status := STATUS_FIND_FOOD,
       ant_home := homePosition w,
       maxPath := maxPathLength P
         + \<lfloor>r * real_of_int (maxPathLengthMax P - maxPathLength P + 1)\<rfloor>\<rparr>"

definition new_Ant :: "Params \<Rightarrow> World \<Rightarrow> real \<Rightarrow> Ant" where
  "new_Ant P w r =
     Ant_init P w \<lparr>path = [], status = STATUS_FIND_FOOD, ant_home = homePosition w, maxPath = 0\<rparr> r"

fun getNeighbors_from :: "World \<Rightarrow> ref \<Rightarrow> (int \<times> int) list \<Rightarrow> ref list" where
  "getNeighbors_from w position [] = []"
| "getNeighbors_from w position (d # ds) =
     (case Position_move (cells w position) d (wmap w) 1 of
        None \<Rightarrow> getNeighbors_from w position ds
      | Some np \<Rightarrow>
          (if type (cells w np) \<noteq> TYPE_BARRIER
           then np # getNeighbors_from w position ds
           else getNeighbors_from w position ds))"

definition getNeighbors :: "Params \<Rightarrow> World \<Rightarrow> ref \<Rightarrow> ref list" where
  "getNeighbors P w position = getNeighbors_from w position (Direction_M P)"

text \<open>
  The cell at a coordinate, if the coordinate lies in the grid, and the cells one offset
  of \<^verbatim>\<open>Direction.M\<close> away from a cell.
\<close>

definition cell_at :: "World \<Rightarrow> int \<Rightarrow> int \<Rightarrow> ref option" where
  "cell_at w x y =
     (if 0 \<le> x \<and> x < int (length (wmap w)) \<and> 0 \<le> y \<and> y < int (length (wmap w ! 0))
      then Some (wmap w ! nat x ! nat y)
      else None)"

definition neighbor_of :: "Params \<Rightarrow> World \<Rightarrow> ref \<Rightarrow> ref \<Rightarrow> bool" where
  "neighbor_of P w current c =
     (\<exists>d \<in> set (Direction_M P).
        cell_at w (pos_x (cells w current) + fst d) (pos_y (cells w current) + snd d) = Some c)"

fun isInPath_from :: "ref list \<Rightarrow> ref \<Rightarrow> bool" where
  "isInPath_from [] position = False"
| "isInPath_from (c # cs) position = (if c = position then True else isInPath_from cs position)"

definition isInPath :: "Ant \<Rightarrow> ref \<Rightarrow> bool" where
  "isInPath a position = isInPath_from (path a) position"

text \<open>
  The desirability loop of \<^verbatim>\<open>_selectNext\<close>: it pushes \<^verbatim>\<open>val\<close> onto \<^verbatim>\<open>values\<close> and
  adds it to \<^verbatim>\<open>sum\<close> (here \<open>sum_v\<close>) for each allowed cell.
\<close>

fun desirability_loop ::
  "Params \<Rightarrow> World \<Rightarrow> Ant \<Rightarrow> ref list \<Rightarrow> jsnum list \<Rightarrow> jsnum \<Rightarrow> jsnum list \<times> jsnum" where
  "desirability_loop P w a [] vals sum_v = (vals, sum_v)"
| "desirability_loop P w a (c # rest) vals sum_v =
     (let (tau, eta) =
            (if status a = STATUS_FIND_FOOD
             then (js_add (getP (cells w c) P_TYPE_FOOD) (tau0 P), Num 1)
             else
               let dx = pos_x (cells w c) - pos_x (cells w (ant_home a));
                   dy = pos_y (cells w c) - pos_y (cells w (ant_home a));
                   dist = js_sqrt (Num (real_of_int (dx * dx + dy * dy)))
               in (js_add (getP (cells w c) P_TYPE_HOME) (tau0 P),
                   if js_gt dist (Num 0) then js_div (Num 1) dist else Num 100));
          val = js_mul (js_pow tau (alpha P)) (js_pow eta (beta P))
      in desirability_loop P w a rest (vals @ [val]) (js_add sum_v val))"

text \<open>
  The desirability of a candidate as the specification words it: \<open>tau^alpha * eta^beta\<close>,
  with the Euclidean distance to the home cell in the heuristic of a carrying ant.
\<close>

definition euclid_dist :: "Position \<Rightarrow> Position \<Rightarrow> real" where
  "euclid_dist c h = sqrt (real_of_int ((pos_x c - pos_x h)\<^sup>2 + (pos_y c - pos_y h)\<^sup>2))"

definition spec_tau :: "Params \<Rightarrow> World \<Rightarrow> Ant \<Rightarrow> ref \<Rightarrow> jsnum" where
  "spec_tau P w a c =
     (case status a of
        STATUS_FIND_FOOD \<Rightarrow> js_add (pheromone (cells w c) P_TYPE_FOOD) (tau0 P)
      | STATUS_CARRY_FOOD \<Rightarrow> js_add (pheromone (cells w c) P_TYPE_HOME) (tau0 P))"

definition spec_eta :: "World \<Rightarrow> Ant \<Rightarrow> ref \<Rightarrow> jsnum" where
  "spec_eta w a c =
     (case status a of
        STATUS_FIND_FOOD \<Rightarrow> Num 1
      | STATUS_CARRY_FOOD \<Rightarrow>
          (if 0 < euclid_dist (cells w c) (cells w (ant_home a))
           then js_div (Num 1) (Num (euclid_dist (cells w c) (cells w (ant_home a))))
           else Num 100))"

definition spec_desirability :: "Params \<Rightarrow> World \<Rightarrow> Ant \<Rightarrow> ref \<Rightarrow> jsnum" where
  "spec_desirability P w a c =
     js_mul (js_pow (spec_tau P w a c) (alpha P)) (js_pow (spec_eta w a c) (beta P))"

definition normalize_values :: "jsnum list \<Rightarrow> jsnum \<Rightarrow> jsnum list" where
  "normalize_values vals sum_v =
     (if js_gt sum_v (Num 0)
      then map (\<lambda>v. js_div v sum_v) vals
      else map (\<lambda>v. js_div (Num 1) (Num (real (length vals)))) vals)"

text \<open>The candidates of a move: the neighbours outside the path, or all of them.\<close>

definition allowed_cells :: "Params \<Rightarrow> World \<Rightarrow> Ant \<Rightarrow> ref \<Rightarrow> ref list" where
  "allowed_cells P w a current =
     (let neighbors = getNeighbors P w current;
          allowed = filter (\<lambda>n. \<not> isInPath a n) neighbors
      in if length allowed = 0 then neighbors else allowed)"

text \<open>The probability vector handed to the roulette wheel.\<close>

definition probabilities :: "Params \<Rightarrow> World \<Rightarrow> Ant \<Rightarrow> ref \<Rightarrow> jsnum list" where
  "probabilities P w a current =
     (let (vals, sum_v) = desirability_loop P w a (allowed_cells P w a current) [] (Num 0)
      in normalize_values vals sum_v)"

text \<open>
  \<^verbatim>\<open>Ant.prototype._selectNext\<close>; \<open>None\<close> is \<^verbatim>\<open>null\<close> (or the \<^verbatim>\<open>undefined\<close> of an
  index outside \<^verbatim>\<open>allowed\<close>, which the caller treats alike). The random value is
  drawn only when there is a neighbour.
\<close>

definition selectNext :: "Params \<Rightarrow> World \<Rightarrow> Ant \<Rightarrow> ref \<Rightarrow> real \<Rightarrow> ref option" where
  "selectNext P w a current r =
     (if length (getNeighbors P w current) = 0 then None
      else
        let allowed = allowed_cells P w a current;
            idx = rouletteWheel (probabilities P w a current) r
        in if 0 \<le> idx \<and> idx < int (length allowed) then Some (allowed ! nat idx) else None)"

text \<open>\<^verbatim>\<open>Ant.prototype._depositPheromone\<close>.\<close>

fun deposit_loop :: "World \<Rightarrow> ref list \<Rightarrow> jsnum \<Rightarrow> ptype \<Rightarrow> World" where
  "deposit_loop w [] deltaTau pType = w"
| "deposit_loop w (c # cs) deltaTau pType =
     deposit_loop
       (addCheckList (w\<lparr>cells := (cells w)(c := addPheromone deltaTau pType (cells w c))\<rparr>) c)
       cs deltaTau pType"

definition depositPheromone :: "Params \<Rightarrow> World \<Rightarrow> Ant \<Rightarrow> ptype \<Rightarrow> World" where
  "depositPheromone P w a pType =
     (let L = length (path a)
      in if L \<le> 1 then w
         else deposit_loop w (path a) (js_div (Q P) (Num (real L))) pType)"

text \<open>
  \<^verbatim>\<open>Ant.prototype.move\<close>. \<open>rnd\<close> is the sequence of values that \<^verbatim>\<open>Math.random()\<close>
  returns and \<open>k\<close> the number of values drawn so far: \<^verbatim>\<open>_selectNext\<close> draws one when
  the current cell has a neighbour, each \<^verbatim>\<open>_init\<close> draws one. The path is never empty
  (\<^verbatim>\<open>_init\<close> starts it with the home cell).
\<close>

fun Ant_move :: "Params \<Rightarrow> (nat \<Rightarrow> real) \<Rightarrow> World \<times> Ant \<times> nat \<Rightarrow> World \<times> Ant \<times> nat" where
  "Ant_move P rnd (w, a, k) =
     (let current = last (path a);
          k1 = (if length (getNeighbors P w current) = 0 then k else k + 1)
      in case selectNext P w a current (rnd k) of
           None \<Rightarrow> (w, Ant_init P w a (rnd k1), k1 + 1)
         | Some next \<Rightarrow>
             let (w2, a2, k2) =
               (if type (cells w next) = TYPE_FOOD \<and> status a = STATUS_FIND_FOOD then
                  let a1 = a\<lparr>path := path a @ [next]\<rparr>;
                      w1 = depositPheromone P w a1 P_TYPE_FOOD
                  in (w1, a1\<lparr>status := STATUS_CARRY_FOOD, path := [next]\<rparr>, k1)
                else if type (cells w next) = TYPE_HOME \<and> status a = STATUS_CARRY_FOOD then
                  let a1 = a\<lparr>path := path a @ [next]\<rparr>;
                      w1 = depositPheromone P w a1 P_TYPE_HOME
                  in (w1, Ant_init P w1 a1 (rnd k1), k1 + 1)
                else
                  (addCheckList w next, a\<lparr>path := path a @ [next]\<rparr>, k1))
             in if maxPath a2 < int (length (path a2))
                then (w2, Ant_init P w2 a2 (rnd k2), k2 + 1)
                else (w2, a2, k2))"

section \<open>The simulation step\<close>

text \<open>
  The driver \<^verbatim>\<open>_run\<close> of the multiplicative model (the one that calls
  \<^verbatim>\<open>evaporateAndRender\<close>). Its state: the world (with \<open>world_defined\<close> false while the
  variable is still \<^verbatim>\<open>undefined\<close>), the ant list, the three flags and the number of
  random values drawn. \<open>calls\<close> records the method calls the driver makes, in order; it
  is there to state the order of a tick and influences nothing.
\<close>

datatype call = Call_new_Ant | Call_move nat | Call_evaporateAndRender

record Sim =
  world :: World
  world_defined :: bool
  antList :: "Ant list"
  isRun :: bool
  isSimulationStarted :: bool
  isSettingsApplied :: bool
  draws :: nat
  calls :: "call list"

definition push_new_Ant :: "Params \<Rightarrow> (nat \<Rightarrow> real) \<Rightarrow> Sim \<Rightarrow> Sim" where
  "push_new_Ant P rnd s =
     s\<lparr>antList := antList s @ [new_Ant P (world s) (rnd (draws s))],
       draws := draws s + 1,
       calls := calls s @ [Call_new_Ant]\<rparr>"

function spawn_loop :: "Params \<Rightarrow> (nat \<Rightarrow> real) \<Rightarrow> Sim \<Rightarrow> Sim" where
  "spawn_loop P rnd s =
     (if int (length (antList s)) < ANT_NUMBER P
      then spawn_loop P rnd (push_new_Ant P rnd s)
      else s)"
  by pat_completeness auto
termination
  by (relation "measure (\<lambda>(P, rnd, s). nat (ANT_NUMBER P - int (length (antList s))))")
     (auto simp: push_new_Ant_def)

definition move_ant :: "Params \<Rightarrow> (nat \<Rightarrow> real) \<Rightarrow> Sim \<Rightarrow> nat \<Rightarrow> Sim" where
  "move_ant P rnd s i =
     (let (w, a, k) = Ant_move P rnd (world s, antList s ! i, draws s)
      in s\<lparr>world := w,
           antList := (antList s)[i := a],
           draws := k,
           calls := calls s @ [Call_move i]\<rparr>)"

lemma length_antList_move_ant [simp]:
  "length (antList (move_ant P rnd s i)) = length (antList s)"
  by (simp add: move_ant_def split: prod.splits)

function ants_loop :: "Params \<Rightarrow> (nat \<Rightarrow> real) \<Rightarrow> Sim \<Rightarrow> nat \<Rightarrow> Sim" where
  "ants_loop P rnd s i =
     (if i < length (antList s)
      then ants_loop P rnd (move_ant P rnd s i) (i + 1)
      else s)"
  by pat_completeness auto
termination
  by (relation "measure (\<lambda>(P, rnd, s, i). length (antList s) - i)") auto

function steps_loop :: "Params \<Rightarrow> (nat \<Rightarrow> real) \<Rightarrow> Sim \<Rightarrow> int \<Rightarrow> Sim" where
  "steps_loop P rnd s step =
     (if step < stepsPerTick P
      then steps_loop P rnd (ants_loop P rnd s 0) (step + 1)
      else s)"
  by pat_completeness auto
termination
  by (relation "measure (\<lambda>(P, rnd, s, step). nat (stepsPerTick P - step))") auto

definition call_evaporateAndRender :: "Params \<Rightarrow> Sim \<Rightarrow> Sim" where
  "call_evaporateAndRender P s =
     s\<lparr>world := evaporateAndRender P (world s),
       calls := calls s @ [Call_evaporateAndRender]\<rparr>"

definition run :: "Params \<Rightarrow> (nat \<Rightarrow> real) \<Rightarrow> Sim \<Rightarrow> Sim" where
  "run P rnd s =
     (if \<not> isRun s then
        let s1 = s\<lparr>isRun := True\<rparr>;
            s2 = (if world_defined s1 \<and> isSettingsApplied s1 \<and> isSimulationStarted s1
                  then call_evaporateAndRender P (steps_loop P rnd (spawn_loop P rnd s1) 0)
                  else s1)
        in s2\<lparr>isRun := False\<rparr>
      else s)"

text \<open>The loops are unfolded one iteration at a time, by the lemmas below.\<close>

declare spawn_loop.simps [simp del] ants_loop.simps [simp del] steps_loop.simps [simp del]

section \<open>An example configuration\<close>

text \<open>
  The default parameters of \<^verbatim>\<open>World\<close> (with the path-length range of the settings form
  and the eight unit and diagonal offsets as \<^verbatim>\<open>Direction.M\<close>), and a 3 x 3 grid: the
  cell of column \<open>x\<close> and row \<open>y\<close> is the reference \<open>10 + 3 * x + y\<close>, the home cell
  is the centre 14, cell 12 has been made Food and cell 13 a Barrier.
\<close>

definition example_params :: Params where
  "example_params =
     \<lparr>alpha = Num 1, beta = Num 2, rho = Num (2 / 100), Q = Num 100, tau0 = Num (1 / 100),
      ANT_NUMBER = 50, maxPathLength = 1500, maxPathLengthMax = 2000, stepsPerTick = 5,
      showPheromoneType = P_TYPE_FOOD,
      Direction_M = [(- 1, - 1), (0, - 1), (1, - 1), (- 1, 0), (1, 0), (- 1, 1), (0, 1), (1, 1)]\<rparr>"

definition example_cells :: "ref \<Rightarrow> Position" where
  "example_cells i =
     (if i = 14 then new_Position 1 1 (Some (Num 0)) (Some (Num MAX_VALUE)) (Some TYPE_HOME)
      else if i = 13 then changeType TYPE_BARRIER (new_Position 1 0 None None None)
      else if i = 12 then changeType TYPE_FOOD (new_Position 0 2 None None None)
      else new_Position ((int i - 10) div 3) ((int i - 10) mod 3) None None None)"

definition example_world :: World where
  "example_world =
     \<lparr>wmap = [[10, 11, 12], [13, 14, 15], [16, 17, 18]], checkList = [], homePosition = 14,
      cells = example_cells\<rparr>"

definition example_ant :: "ref list \<Rightarrow> ant_status \<Rightarrow> Ant" where
  "example_ant p st = \<lparr>path = p, status = st, ant_home = 14, maxPath = 1500\<rparr>"

text \<open>
  The same grid after a trail has formed: cell 11 holds food pheromone 1, and the check
  list holds cell 11 and the home cell.
\<close>

definition example_trail :: World where
  "example_trail =
     example_world\<lparr>cells := example_cells(11 := new_Position 0 1 (Some (Num 1)) None None),
                   checkList := [11, 14]\<rparr>"

text \<open>A driver state in which the simulation has been started, before the first tick.\<close>

definition example_sim :: Sim where
  "example_sim =
     \<lparr>world = example_world, world_defined = True, antList = [], isRun = False,
      isSimulationStarted = True, isSettingsApplied = True, draws = 0, calls = []\<rparr>"

text \<open>
  A corridor: a grid of one column and five rows, the cell of row \<open>y\<close> being the
  reference \<open>20 + y\<close>, with the home cell 22 in the middle and cell 24 made Food;
  \<open>corridor_world cl\<close> is that world with check list \<open>cl\<close>. \<open>corridor_ant p\<close> is a
  seeking ant with path \<open>p\<close>, and \<open>corridor_draws\<close> a sequence of values of
  \<^verbatim>\<open>Math.random()\<close>.
\<close>

definition corridor_cells :: "ref \<Rightarrow> Position" where
  "corridor_cells i =
     (if i = 22 then new_Position 0 2 (Some (Num 0)) (Some (Num MAX_VALUE)) (Some TYPE_HOME)
      else if i = 24 then changeType TYPE_FOOD (new_Position 0 4 None None None)
      else new_Position 0 (int i - 20) None None None)"

definition corridor_world :: "ref list \<Rightarrow> World" where
  "corridor_world cl =
     \<lparr>wmap = [[20, 21, 22, 23, 24]], checkList = cl, homePosition = 22, cells = corridor_cells\<rparr>"

definition corridor_ant :: "ref list \<Rightarrow> Ant" where
  "corridor_ant p = \<lparr>path = p, status = STATUS_FIND_FOOD, ant_home = 22, maxPath = 1750\<rparr>"

definition corridor_draws :: "nat \<Rightarrow> real" where
  "corridor_draws k = (if k = 11 then 3 / 10 else if k = 14 then 7 / 10 else 1 / 2)"

text \<open>
  A driver state over the corridor in which the simulation has been started, with no ant
  yet and ten random values drawn.
\<close>

definition corridor_sim :: Sim where
  "corridor_sim =
     \<lparr>world = corridor_world [], world_defined = True, antList = [], isRun = False,
      isSimulationStarted = True, isSettingsApplied = True, draws = 10, calls = []\<rparr>"

section \<open>Facts about the number model\<close>

lemma overflow_bound_gt2: "2 < overflow_bound"
  by (simp add: overflow_bound_def)

lemma js_fin_Num: "\<bar>r\<bar> < overflow_bound \<Longrightarrow> js_fin r = Num r"
  by (auto simp: js_fin_def)

lemma js_sub_one_rate:
  assumes "0 < r" "r < 1"
  shows "js_sub (Num 1) (Num r) = Num (1 - r)"
proof -
  have "\<bar>1 - r\<bar> < overflow_bound" using assms overflow_bound_gt2 by simp
  then show ?thesis by (simp add: js_sub_def js_fin_Num)
qed

lemma MAX_VALUE_lt_bound: "MAX_VALUE < overflow_bound"
  by (simp add: MAX_VALUE_def overflow_bound_def)

lemma js_fin_small: "\<bar>x\<bar> \<le> 2 \<Longrightarrow> js_fin x = Num x"
  using overflow_bound_gt2 by (intro js_fin_Num) simp

section \<open>Facts about rounding\<close>

lemma floor_log2_eq: "0 < x \<Longrightarrow> floor_log2 x = \<lfloor>log 2 x\<rfloor>"
proof (induction x rule: floor_log2.induct)
  case (1 x)
  show ?case
  proof (cases "2 \<le> x")
    case True
    have "floor_log2 x = floor_log2 (x / 2) + 1" using True by (subst floor_log2.simps) simp
    also have "floor_log2 (x / 2) = \<lfloor>log 2 (x / 2)\<rfloor>" using "1.IH"(1) [OF True] "1.prems" by simp
    also have "log 2 (x / 2) = log 2 x - 1" using "1.prems" by (simp add: log_divide)
    finally show ?thesis by simp
  next
    case False
    show ?thesis
    proof (cases "x < 1")
      case True
      with "1.prems" have c: "0 < x \<and> x < 1" by simp
      have "floor_log2 x = floor_log2 (2 * x) - 1"
        using False c by (subst floor_log2.simps) simp
      also have "floor_log2 (2 * x) = \<lfloor>log 2 (2 * x)\<rfloor>"
        using "1.IH"(2) [OF False c] "1.prems" by simp
      also have "log 2 (2 * x) = log 2 x + 1" using "1.prems" by (simp add: log_mult)
      finally show ?thesis by simp
    next
      case g: False
      have "floor_log2 x = 0" using False g by (subst floor_log2.simps) simp
      moreover have "\<lfloor>log 2 x\<rfloor> = 0"
        using floor_log_eq_powr_iff [of x 2 0] False g "1.prems" by simp
      ultimately show ?thesis by simp
    qed
  qed
qed

lemma binade_log: "0 < x \<Longrightarrow> binade x = max (- 1022) \<lfloor>log 2 x\<rfloor>"
  by (simp add: binade_def floor_log2_eq)

lemma ulp_pos [simp]: "0 < ulp x"
  by (simp add: ulp_def)

lemma ulp_nonneg [simp]: "0 \<le> ulp x"
  by (rule less_imp_le) (rule ulp_pos)

lemma ulp_neq0 [simp]: "ulp x \<noteq> 0"
  by (simp add: ulp_def)

lemma powr_powi: "(2::real) powr (of_int e) = 2 powi e"
  by (rule powr_real_of_int') simp_all

lemma log2_powi: "log 2 (2 powi e) = of_int e"
  using log_powr_cancel [of 2 "of_int e"] by (simp only: powr_powi)

text \<open>Rounding to an integer moves a number by at most a half.\<close>

lemma round_even_upper: "of_int (round_even m) \<le> m + 1 / 2"
  unfolding round_even_def Let_def by (auto; linarith)

lemma round_even_lower: "m - 1 / 2 \<le> of_int (round_even m)"
  unfolding round_even_def Let_def by (auto; linarith)

lemma round_even_of_int [simp]: "round_even (of_int k) = k"
  by (simp add: round_even_def)

lemma round_even_nonneg: "0 \<le> m \<Longrightarrow> 0 \<le> round_even m"
  unfolding round_even_def Let_def by (auto; linarith)

lemma round_even_le_int: "m \<le> of_int k \<Longrightarrow> round_even m \<le> k"
  unfolding round_even_def Let_def by (auto simp: floor_le_iff; linarith)

text \<open>A positive number lies in its binade, or below the smallest one.\<close>

lemma binade_upper: 
  assumes "0 < x" shows "x < 2 powi (binade x + 1)"
proof -
  have "x < 2 powr (of_int (\<lfloor>log 2 x\<rfloor> + 1))"
    using floor_log_eq_powr_iff [of x 2 "\<lfloor>log 2 x\<rfloor>"] assms by simp
  also have "\<dots> = 2 powi (\<lfloor>log 2 x\<rfloor> + 1)" by (rule powr_powi)
  also have "\<dots> \<le> 2 powi (binade x + 1)"
    using assms by (intro power_int_increasing) (simp_all add: binade_log)
  finally show ?thesis .
qed

lemma binade_lower:
  assumes "2 powi (- 1022) \<le> x" shows "2 powi (binade x) \<le> x"
proof -
  have x0: "0 < x" by (rule less_le_trans [OF _ assms]) simp
  have "2 powr (of_int \<lfloor>log 2 x\<rfloor>) \<le> x"
    using floor_log_eq_powr_iff [of x 2 "\<lfloor>log 2 x\<rfloor>"] x0 by simp
  then have a: "2 powi \<lfloor>log 2 x\<rfloor> \<le> x" by (simp only: powr_powi)
  show ?thesis
  proof (cases "- 1022 \<le> \<lfloor>log 2 x\<rfloor>")
    case True
    then have "binade x = \<lfloor>log 2 x\<rfloor>" using x0 by (simp add: binade_log)
    with a show ?thesis by simp
  next
    case False
    then have "binade x = - 1022" using x0 by (simp add: binade_log)
    with assms show ?thesis by simp
  qed
qed

lemma binade_eqI:
  assumes "2 powi e \<le> x" "x < 2 powi (e + 1)" "- 1022 \<le> e"
  shows "binade x = e"
proof -
  have x0: "0 < x" by (rule less_le_trans [OF _ assms(1)]) simp
  have "2 powr (of_int e) \<le> x" using assms(1) by (simp only: powr_powi)
  moreover have "x < 2 powr (of_int (e + 1))" using assms(2) by (simp only: powr_powi)
  ultimately have "\<lfloor>log 2 x\<rfloor> = e"
    using floor_log_eq_powr_iff [of x 2 e] x0 by simp
  then show ?thesis using x0 assms(3) by (simp add: binade_log)
qed

text \<open>Rounding to a double moves a number by at most half a unit in the last place.\<close>

lemma round_double_upper: "round_double x \<le> x + ulp x / 2"
proof -
  have "of_int (round_even (x / ulp x)) * ulp x \<le> (x / ulp x + 1 / 2) * ulp x"
    by (intro mult_right_mono round_even_upper) simp
  also have "\<dots> = x + ulp x / 2" using ulp_pos [of x] by (simp add: field_simps)
  finally show ?thesis by (simp add: round_double_def)
qed

lemma round_double_lower: "x - ulp x / 2 \<le> round_double x"
proof -
  have "(x / ulp x - 1 / 2) * ulp x \<le> of_int (round_even (x / ulp x)) * ulp x"
    by (intro mult_right_mono round_even_lower) simp
  moreover have "(x / ulp x - 1 / 2) * ulp x = x - ulp x / 2"
    using ulp_pos [of x] by (simp add: field_simps)
  ultimately show ?thesis by (simp add: round_double_def)
qed

lemma round_double_nonneg: "0 \<le> x \<Longrightarrow> 0 \<le> round_double x"
  unfolding round_double_def
  by (intro mult_nonneg_nonneg) (simp_all add: round_even_nonneg less_imp_le)

lemma round_double_0 [simp]: "round_double 0 = 0"
  using round_even_of_int [of 0] by (simp add: round_double_def)

text \<open>
  In the normal range the relative error is at most \<open>2^-53\<close>; below it the result is at
  most \<open>2^-1021\<close>.
\<close>

lemma ulp_normal:
  assumes "2 powi (- 1022) \<le> x" shows "ulp x \<le> x / 2 ^ 52"
proof -
  have "ulp x = 2 powi (binade x) / 2 ^ 52"
    by (simp add: ulp_def power_int_diff)
  also have "\<dots> \<le> x / 2 ^ 52" using binade_lower [OF assms] by (simp add: divide_right_mono)
  finally show ?thesis .
qed

lemma round_double_rel_upper:
  assumes "2 powi (- 1022) \<le> x" shows "round_double x \<le> x * (1 + 1 / 2 ^ 53)"
proof -
  have "round_double x \<le> x + ulp x / 2" by (rule round_double_upper)
  also have "\<dots> \<le> x + (x / 2 ^ 52) / 2" using ulp_normal [OF assms] by simp
  also have "\<dots> = x * (1 + 1 / 2 ^ 53)" by (simp add: field_simps)
  finally show ?thesis .
qed

lemma round_double_rel_lower:
  assumes "2 powi (- 1022) \<le> x" shows "x * (1 - 1 / 2 ^ 53) \<le> round_double x"
proof -
  have "x * (1 - 1 / 2 ^ 53) = x - (x / 2 ^ 52) / 2" by (simp add: field_simps)
  also have "\<dots> \<le> x - ulp x / 2" using ulp_normal [OF assms] by simp
  also have "\<dots> \<le> round_double x" by (rule round_double_lower)
  finally show ?thesis .
qed

lemma round_double_tiny:
  assumes "0 \<le> x" "x < 2 powi (- 1022)" shows "round_double x \<le> 2 powi (- 1021)"
proof (cases "x = 0")
  case True then show ?thesis by simp
next
  case False
  with assms have x0: "0 < x" by simp
  have "\<lfloor>log 2 x\<rfloor> < - 1022"
  proof -
    have "log 2 x < log 2 (2 powi (- 1022))" using x0 assms(2) by simp
    also have "\<dots> = - 1022" by (simp only: log2_powi)
    finally show ?thesis by (simp add: floor_less_iff)
  qed
  then have "binade x = - 1022" using x0 by (simp add: binade_log)
  then have u: "ulp x = 2 powi (- 1074)" by (simp add: ulp_def)
  have "round_double x \<le> x + ulp x / 2" by (rule round_double_upper)
  also have "\<dots> \<le> 2 powi (- 1022) + 2 powi (- 1074) / 2" using assms(2) u by simp
  also have "\<dots> \<le> 2 powi (- 1021)" by (simp add: power_int_minus field_simps)
  finally show ?thesis .
qed

lemma round_even_lt_half: "m < of_int k + 1 / 2 \<Longrightarrow> round_even m \<le> k"
  unfolding round_even_def Let_def by (auto simp: floor_le_iff; linarith)

lemma round_even_eqI: "of_int k - 1 / 2 < m \<Longrightarrow> m < of_int k + 1 / 2 \<Longrightarrow> round_even m = k"
  unfolding round_even_def Let_def by (auto; linarith)

lemma binade_le:
  assumes "0 < x" "x < 2 powi (e + 1)" "- 1022 \<le> e"
  shows "binade x \<le> e"
proof -
  have "log 2 x < log 2 (2 powi (e + 1))" using assms(1,2) by simp
  then have "log 2 x < of_int (e + 1)" by (simp only: log2_powi)
  then have "\<lfloor>log 2 x\<rfloor> < e + 1" by (simp only: floor_less_iff)
  with assms(1,3) show ?thesis by (simp add: binade_log)
qed

text \<open>
  The factor of evaporation: for a rate above \<open>2^-54\<close> the rounded \<open>1 - rho\<close> is at most
  \<open>1 - 2^-53\<close>, the largest double below 1.
\<close>

lemma factor_range:
  assumes "1 / 2 ^ 54 < r" "r < 1"
  shows "0 \<le> round_double (1 - r)" "round_double (1 - r) \<le> 1 - 1 / 2 ^ 53"
proof -
  define x where "x = 1 - r"
  have x: "0 < x" "x < 1 - 1 / 2 ^ 54" using assms by (simp_all add: x_def)
  show "0 \<le> round_double (1 - r)" using x(1) unfolding x_def [symmetric]
    by (intro round_double_nonneg) simp
  have "round_double x \<le> 1 - 1 / 2 ^ 53"
  proof (cases "1 / 2 \<le> x")
    case True
    have "binade x = - 1" using True x(2) by (intro binade_eqI) simp_all
    then have u: "ulp x = 1 / 2 ^ 53" by (simp add: ulp_def power_int_minus_divide)
    have "x / ulp x < of_int (2 ^ 53 - 1) + 1 / 2" using x(2) by (simp add: u field_simps)
    then have "round_even (x / ulp x) \<le> 2 ^ 53 - 1" by (rule round_even_lt_half)
    then have "(of_int (round_even (x / ulp x)) :: real) \<le> of_int (2 ^ 53 - 1)"
      by (simp only: of_int_le_iff)
    then have "of_int (round_even (x / ulp x)) * ulp x \<le> of_int (2 ^ 53 - 1) * ulp x"
      by (intro mult_right_mono) simp_all
    then show ?thesis by (simp add: round_double_def u field_simps)
  next
    case False
    then have "binade x \<le> - 2" using x(1) by (intro binade_le) simp_all
    then have "ulp x \<le> 2 powi (- 54)" unfolding ulp_def by (intro power_int_increasing) simp_all
    then have "ulp x \<le> 1 / 2 ^ 54" by (simp add: power_int_minus_divide)
    with round_double_upper [of x] False show ?thesis by simp
  qed
  then show "round_double (1 - r) \<le> 1 - 1 / 2 ^ 53" by (simp only: x_def)
qed

text \<open>A multiple of the unit in the last place is a double.\<close>

lemma round_double_exact:
  assumes "binade x = e" "x = of_int k * 2 powi (e - 52)"
  shows "round_double x = x"
proof -
  have u: "ulp x = 2 powi (e - 52)" by (simp add: ulp_def assms(1))
  have "x / ulp x = of_int k" unfolding u by (subst assms(2)) simp
  then show ?thesis unfolding round_double_def by (simp only: round_even_of_int u assms(2) [symmetric])
qed

lemma round_double_one [simp]: "round_double 1 = 1"
proof (rule round_double_exact)
  show "binade 1 = 0" by (rule binade_eqI) simp_all
  show "(1::real) = of_int (2 ^ 52) * 2 powi (0 - 52)" by (simp add: power_int_minus_divide)
qed

lemma round_double_half [simp]: "round_double (1 / 2) = 1 / 2"
proof (rule round_double_exact)
  show "binade (1 / 2) = - 1" by (rule binade_eqI) simp_all
  show "(1 / 2 ::real) = of_int (2 ^ 52) * 2 powi (- 1 - 52)" by (simp add: power_int_minus_divide)
qed

text \<open>A rate of at most \<open>2^-54\<close> is absorbed: the rounded \<open>1 - rho\<close> is 1.\<close>

lemma round_double_absorbed:
  assumes "0 < r" "r \<le> 1 / 2 ^ 54"
  shows "round_double (1 - r) = 1"
proof -
  define x where "x = 1 - r"
  have x: "1 - 1 / 2 ^ 54 \<le> x" "x < 1" using assms by (simp_all add: x_def)
  then have "1 / 2 \<le> x" by simp
  then have "binade x = - 1" using x(2) by (intro binade_eqI) simp_all
  then have u: "ulp x = 1 / 2 ^ 53" by (simp add: ulp_def power_int_minus_divide)
  define m where "m = x * 2 ^ 53"
  have m: "2 ^ 53 - 1 / 2 \<le> m" "m < 2 ^ 53" using x by (simp_all add: m_def field_simps)
  have fl: "\<lfloor>m\<rfloor> = 2 ^ 53 - 1" using m by (intro floor_unique) simp_all
  have odd: "odd (2 ^ 53 - 1 :: int)" by simp
  have "round_even m = 2 ^ 53"
    unfolding round_even_def Let_def fl using m odd by (auto simp: not_less)
  moreover have "x / ulp x = m" by (simp add: u m_def)
  ultimately have "round_double x = of_int (2 ^ 53) * (1 / 2 ^ 53)"
    by (simp only: round_double_def u)
  then show ?thesis by (simp add: x_def)
qed

text \<open>The threshold \<^verbatim>\<open>1e-10\<close> as a double, and the numbers far below it.\<close>

lemma tiny_bounds:
  "(2::real) powi (- 1022) \<le> 1 / 10 ^ 10" "(2::real) powi (- 1021) < 1 / 10 ^ 11"
proof -
  have a: "(10::real) ^ 11 < 2 ^ 40" by simp
  have b: "(2::real) ^ 40 \<le> 2 ^ 1021" by (rule power_increasing) simp_all
  have c: "(2::real) ^ 1021 \<le> 2 ^ 1022" by (rule power_increasing) simp_all
  have "(10::real) ^ 10 \<le> 10 ^ 11" by (rule power_increasing) simp_all
  with a b c have "(10::real) ^ 10 \<le> 2 ^ 1022" by linarith
  then have "1 / (2::real) ^ 1022 \<le> 1 / 10 ^ 10" by (intro divide_left_mono) simp_all
  then show "(2::real) powi (- 1022) \<le> 1 / 10 ^ 10" by (simp only: power_int_minus_divide power_int_numeral)
  from a b have "(10::real) ^ 11 < 2 ^ 1021" by linarith
  then have "1 / (2::real) ^ 1021 < 1 / 10 ^ 11" by (intro divide_strict_left_mono) simp_all
  then show "(2::real) powi (- 1021) < 1 / 10 ^ 11" by (simp only: power_int_minus_divide power_int_numeral)
qed

lemma threshold_bounds:
  "1 / 10 ^ 11 \<le> round_double (1 / 10 ^ 10)" "round_double (1 / 10 ^ 10) \<le> 1 / 10 ^ 9"
proof -
  define t :: real where "t = 1 / 10 ^ 10"
  have t0: "0 < t" by (simp add: t_def)
  have n: "2 powi (- 1022) \<le> t" unfolding t_def by (rule tiny_bounds)
  have "t / 10 \<le> t * (1 - 1 / 2 ^ 53)" using t0 by simp
  also have "\<dots> \<le> round_double t" using n by (rule round_double_rel_lower)
  finally show "1 / 10 ^ 11 \<le> round_double (1 / 10 ^ 10)" by (simp add: t_def)
  have "round_double t \<le> t * (1 + 1 / 2 ^ 53)" using n by (rule round_double_rel_upper)
  also have "\<dots> \<le> t * 10" using t0 by simp
  finally show "round_double (1 / 10 ^ 10) \<le> 1 / 10 ^ 9" by (simp add: t_def)
qed

lemma threshold_double: "to_double (Num (1 / 10 ^ 10)) = Num (round_double (1 / 10 ^ 10))"
proof -
  have "0 \<le> round_double (1 / 10 ^ 10)" by (rule round_double_nonneg) simp
  with threshold_bounds(2) have "\<bar>round_double (1 / 10 ^ 10)\<bar> \<le> 2" by simp
  then show ?thesis by (simp add: js_fin_small)
qed

text \<open>
  A rounded product with a factor of at most \<open>1 - 2^-53\<close> is below the threshold or at
  most \<open>1 - 2^-106\<close> times the other operand.
\<close>

lemma round_mult_decay:
  assumes "0 \<le> f" "f \<le> 1 - 1 / 2 ^ 53" "0 \<le> v"
  shows "0 \<le> round_double (v * f)"
    and "round_double (v * f) < 1 / 10 ^ 11 \<or> round_double (v * f) \<le> v * (1 - 1 / 2 ^ 106)"
proof -
  define y where "y = v * f"
  have y0: "0 \<le> y" using assms by (simp add: y_def)
  show "0 \<le> round_double (v * f)" using y0 unfolding y_def by (rule round_double_nonneg)
  have yv: "y \<le> v * (1 - 1 / 2 ^ 53)" unfolding y_def using assms by (intro mult_left_mono)
  have "round_double y < 1 / 10 ^ 11 \<or> round_double y \<le> v * (1 - 1 / 2 ^ 106)"
  proof (cases "2 powi (- 1022) \<le> y")
    case True
    have "round_double y \<le> y * (1 + 1 / 2 ^ 53)" using True by (rule round_double_rel_upper)
    also have "\<dots> \<le> (v * (1 - 1 / 2 ^ 53)) * (1 + 1 / 2 ^ 53)"
      using yv by (intro mult_right_mono) simp_all
    also have "\<dots> = v * (1 - 1 / 2 ^ 106)" by (simp add: algebra_simps power2_eq_square [symmetric] flip: power_mult_distrib power_add)
    finally show ?thesis by simp
  next
    case False
    then have "round_double y \<le> 2 powi (- 1021)" using y0 by (intro round_double_tiny) simp_all
    with tiny_bounds(2) show ?thesis by simp
  qed
  then show "round_double (v * f) < 1 / 10 ^ 11 \<or> round_double (v * f) \<le> v * (1 - 1 / 2 ^ 106)"
    by (simp only: y_def)
qed

section \<open>Changing a cell's type\<close>

text \<open>
  C10. \<^verbatim>\<open>changeType\<close> sets the type; it writes the pheromone channels only for the
  targets Barrier (both 0) and Food (food channel \<^verbatim>\<open>Number.MAX_VALUE\<close>, home channel 0).
  For every other target both channels keep their values, so a Food cell changed to
  Normal still holds \<^verbatim>\<open>Number.MAX_VALUE\<close> on the food channel.
\<close>

theorem changeType_pheromone_frame:
  "type (changeType t p) = t
   \<and> (t = TYPE_BARRIER \<longrightarrow> pheromone (changeType t p) = (\<lambda>c. Num 0))
   \<and> (t = TYPE_FOOD \<longrightarrow>
        pheromone (changeType t p) P_TYPE_FOOD = Num MAX_VALUE
      \<and> pheromone (changeType t p) P_TYPE_HOME = Num 0)
   \<and> (t \<noteq> TYPE_BARRIER \<and> t \<noteq> TYPE_FOOD \<longrightarrow> pheromone (changeType t p) = pheromone p)"
  by (simp add: changeType_def Let_def)

theorem changeType_pheromone_frame_witness:
  "type (changeType TYPE_NORMAL (changeType TYPE_FOOD (new_Position 3 4 None None None)))
     = TYPE_NORMAL
   \<and> pheromone (changeType TYPE_NORMAL (changeType TYPE_FOOD (new_Position 3 4 None None None)))
       P_TYPE_FOOD = Num MAX_VALUE"
  using changeType_pheromone_frame
    [of TYPE_NORMAL "changeType TYPE_FOOD (new_Position 3 4 None None None)"]
    changeType_pheromone_frame [of TYPE_FOOD "new_Position 3 4 None None None"]
  by simp

section \<open>Evaporation\<close>

lemma evaporatePheromone_type [simp]: "type (evaporatePheromone rh p) = type p"
  by (simp add: evaporatePheromone_def Let_def)

lemma evaporatePheromone_other: "type p \<noteq> TYPE_NORMAL \<Longrightarrow> evaporatePheromone rh p = p"
  by (simp add: evaporatePheromone_def)

lemma evaporatePheromone_channel:
  "type p = TYPE_NORMAL \<Longrightarrow>
   pheromone (evaporatePheromone rh p) c
     = clamp_noise (js_mul (pheromone p c) (js_sub (Num 1) rh))"
  by (cases c) (simp_all add: evaporatePheromone_def Let_def clamp_noise_def)

subsection \<open>Evaporation in the arithmetic of doubles\<close>

lemma evaporatePheromone_double_type [simp]:
  "type (evaporatePheromone_double rh p) = type p"
  by (simp add: evaporatePheromone_double_def Let_def)

lemma evaporatePheromone_double_other:
  "type p \<noteq> TYPE_NORMAL \<Longrightarrow> evaporatePheromone_double rh p = p"
  by (simp add: evaporatePheromone_double_def)

lemma evaporatePheromone_double_channel:
  "type p = TYPE_NORMAL \<Longrightarrow>
   pheromone (evaporatePheromone_double rh p) c
     = (if js_lt (to_double (js_mul (pheromone p c) (to_double (js_sub (Num 1) rh))))
             (to_double (Num (1 / 10 ^ 10)))
        then Num 0
        else to_double (js_mul (pheromone p c) (to_double (js_sub (Num 1) rh))))"
  by (cases c) (simp_all add: evaporatePheromone_double_def Let_def)

lemma evaporate_double_iter_type [simp]:
  "type ((evaporatePheromone_double rh ^^ n) p) = type p"
  by (induction n) simp_all

lemma factor_double:
  assumes "1 / 2 ^ 54 < r" "r < 1"
  shows "to_double (js_sub (Num 1) (Num r)) = Num (round_double (1 - r))"
proof -
  have r0: "0 < r" by (rule less_trans [OF _ assms(1)]) simp
  have "\<bar>round_double (1 - r)\<bar> \<le> 2" using factor_range [OF assms] by simp
  then show ?thesis using r0 assms(2) by (simp add: js_sub_one_rate js_fin_small)
qed

text \<open>One evaporation of a finite non-negative value, and any number of them.\<close>

lemma evaporate_double_step:
  assumes "type p = TYPE_NORMAL" "pheromone p c = Num x" "0 \<le> x" "x < overflow_bound"
    "1 / 2 ^ 54 < r" "r < 1"
  shows "\<exists>x'. pheromone (evaporatePheromone_double (Num r) p) c = Num x'
            \<and> 0 \<le> x' \<and> x' \<le> x * (1 - 1 / 2 ^ 106) \<and> (x' = 0 \<or> 1 / 10 ^ 11 \<le> x')"
proof -
  define f where "f = round_double (1 - r)"
  define u where "u = round_double (x * f)"
  define t where "t = round_double (1 / 10 ^ 10)"
  define q :: real where "q = 1 - 1 / 2 ^ 106"
  have q: "0 \<le> q" "q < 1" by (simp_all add: q_def)
  have f: "0 \<le> f" "f \<le> 1 - 1 / 2 ^ 53" unfolding f_def using factor_range [OF assms(5,6)] by simp_all
  then have f1: "f \<le> 1" by simp
  have xf: "0 \<le> x * f" "x * f \<le> x" using f(1) f1 assms(3) by (simp_all add: mult_left_le)
  then have "\<bar>x * f\<bar> < overflow_bound" using assms(4) by simp
  then have m: "js_mul (Num x) (Num f) = Num (x * f)" by (simp add: js_fin_Num)
  have u0: "0 \<le> u" and ud: "u < 1 / 10 ^ 11 \<or> u \<le> x * q"
    unfolding u_def q_def using round_mult_decay [OF f assms(3)] by simp_all
  have t: "1 / 10 ^ 11 \<le> t" unfolding t_def by (rule threshold_bounds)
  have xq: "0 \<le> x * q" "x * q \<le> x" using q assms(3) by (simp_all add: mult_left_le)
  have ub: "\<bar>u\<bar> < overflow_bound"
  proof -
    from ud have "u \<le> 2 \<or> u \<le> x" using xq(2) by auto
    with u0 assms(4) overflow_bound_gt2 show ?thesis by auto
  qed
  have "js_mul (pheromone p c) (to_double (js_sub (Num 1) (Num r))) = Num (x * f)"
    by (simp only: assms(2) factor_double [OF assms(5,6)] f_def [symmetric] m)
  then have val: "to_double (js_mul (pheromone p c) (to_double (js_sub (Num 1) (Num r)))) = Num u"
    using ub by (simp add: u_def [symmetric] js_fin_Num)
  have thr: "to_double (Num (1 / 10 ^ 10)) = Num t" by (simp only: threshold_double t_def)
  have res: "pheromone (evaporatePheromone_double (Num r) p) c = Num (if u < t then 0 else u)"
    by (simp only: evaporatePheromone_double_channel [OF assms(1)] val thr js_lt.simps) simp
  show ?thesis
  proof (cases "u < t")
    case True
    with res xq(1) show ?thesis unfolding q_def by auto
  next
    case False
    with t ud have "u \<le> x * q" "1 / 10 ^ 11 \<le> u" by auto
    with res False u0 show ?thesis unfolding q_def by auto
  qed
qed

lemma evaporate_double_iter:
  assumes "type p = TYPE_NORMAL" "pheromone p c = Num v" "0 \<le> v" "v < overflow_bound"
    "1 / 2 ^ 54 < r" "r < 1"
  shows "\<exists>x. pheromone ((evaporatePheromone_double (Num r) ^^ n) p) c = Num x
            \<and> 0 \<le> x \<and> x \<le> v * (1 - 1 / 2 ^ 106) ^ n
            \<and> (0 < n \<longrightarrow> x = 0 \<or> 1 / 10 ^ 11 \<le> x)"
proof (induction n)
  case 0
  show ?case using assms by simp
next
  case (Suc n)
  define q :: real where "q = 1 - 1 / 2 ^ 106"
  have q: "0 \<le> q" "q \<le> 1" by (simp_all add: q_def)
  define s where "s = (evaporatePheromone_double (Num r) ^^ n) p"
  from Suc.IH obtain x where x: "pheromone s c = Num x" "0 \<le> x" "x \<le> v * q ^ n"
    unfolding s_def q_def by blast
  have "q ^ n \<le> 1" using q by (rule power_le_one)
  then have "v * q ^ n \<le> v" using assms(3) by (rule mult_left_le)
  with x(3) assms(4) have xb: "x < overflow_bound" by simp
  have ts: "type s = TYPE_NORMAL" using assms(1) by (simp only: s_def evaporate_double_iter_type)
  from evaporate_double_step [OF ts x(1,2) xb assms(5,6)]
  obtain x' where x': "pheromone (evaporatePheromone_double (Num r) s) c = Num x'"
    "0 \<le> x'" "x' \<le> x * q" "x' = 0 \<or> 1 / 10 ^ 11 \<le> x'"
    unfolding q_def by blast
  have "x * q \<le> (v * q ^ n) * q" using x(3) q(1) by (rule mult_right_mono)
  with x'(3) have "x' \<le> v * q ^ Suc n" by (simp add: mult.assoc power_commutes)
  moreover have "(evaporatePheromone_double (Num r) ^^ Suc n) p = evaporatePheromone_double (Num r) s"
    by (simp add: s_def)
  ultimately show ?case using x'(1,2,4) unfolding q_def by auto
qed

text \<open>Values that stay: 1 under an absorbed rate, and Infinity.\<close>

lemma threshold_below:
  "1 / 10 ^ 9 < a \<Longrightarrow> \<not> js_lt (Num a) (to_double (Num (1 / 10 ^ 10)))"
  "\<not> js_lt PInf (to_double (Num (1 / 10 ^ 10)))"
proof -
  show "\<not> js_lt (Num a) (to_double (Num (1 / 10 ^ 10)))" if "1 / 10 ^ 9 < a"
    using threshold_bounds(2) that by (simp only: threshold_double js_lt.simps)
  show "\<not> js_lt PInf (to_double (Num (1 / 10 ^ 10)))"
    by (simp only: threshold_double js_lt.simps) simp
qed

lemma evaporate_double_absorbed:
  assumes "type p = TYPE_NORMAL" "pheromone p c = Num 1" "0 < r" "r \<le> 1 / 2 ^ 54"
  shows "pheromone (evaporatePheromone_double (Num r) p) c = Num 1"
proof -
  have "r < 1" by (rule le_less_trans [OF assms(4)]) simp
  then have "to_double (js_sub (Num 1) (Num r)) = Num 1"
    using assms(3) by (simp add: js_sub_one_rate round_double_absorbed [OF assms(3,4)] js_fin_small)
  then have "to_double (js_mul (pheromone p c) (to_double (js_sub (Num 1) (Num r)))) = Num 1"
    by (simp add: assms(2) js_fin_small)
  moreover have "\<not> js_lt (Num 1) (to_double (Num (1 / 10 ^ 10)))"
    by (rule threshold_below) simp
  ultimately show ?thesis by (simp only: evaporatePheromone_double_channel [OF assms(1)] if_False)
qed

lemma evaporate_double_infinite:
  assumes "type p = TYPE_NORMAL" "pheromone p c = PInf"
  shows "pheromone (evaporatePheromone_double (Num (1 / 2)) p) c = PInf"
proof -
  have "to_double (js_sub (Num 1) (Num (1 / 2))) = Num (1 / 2)"
    by (simp add: js_sub_one_rate js_fin_small)
  then have "to_double (js_mul (pheromone p c) (to_double (js_sub (Num 1) (Num (1 / 2))))) = PInf"
    by (simp add: assms(2) js_inf_def)
  moreover have "\<not> js_lt PInf (to_double (Num (1 / 10 ^ 10)))"
    by (rule threshold_below)
  ultimately show ?thesis by (simp only: evaporatePheromone_double_channel [OF assms(1)] if_False)
qed

text \<open>
  C3 (as amended). For a Normal cell \<^verbatim>\<open>evaporatePheromone(rho)\<close> multiplies each channel by
  \<open>1 - rho\<close> and replaces a result below \<open>1e-10\<close> by 0, in the arithmetic of doubles; a
  cell of another type is unchanged. For a Normal cell with a positive finite value on a
  channel and \<open>2^-54 < rho < 1\<close>, every further evaporation strictly decreases the value
  as long as it is positive, and from some number of evaporations on the value is
  exactly 0.
\<close>

theorem evaporatePheromone_double_decay:
  fixes r v :: real
  shows "(type p \<noteq> TYPE_NORMAL \<longrightarrow> evaporatePheromone_double rh p = p)
   \<and> (type p = TYPE_NORMAL \<longrightarrow>
        pheromone (evaporatePheromone_double rh p) c =
          (if js_lt (to_double (js_mul (pheromone p c) (to_double (js_sub (Num 1) rh))))
                (to_double (Num (1 / 10 ^ 10)))
           then Num 0
           else to_double (js_mul (pheromone p c) (to_double (js_sub (Num 1) rh)))))
   \<and> (type p = TYPE_NORMAL \<and> pheromone p c = Num v \<and> 0 < v \<and> v \<le> MAX_VALUE
        \<and> 1 / 2 ^ 54 < r \<and> r < 1 \<longrightarrow>
        (\<forall>n. \<exists>x. pheromone ((evaporatePheromone_double (Num r) ^^ n) p) c = Num x \<and> 0 \<le> x
               \<and> (0 < x \<longrightarrow>
                    (\<exists>x'. pheromone ((evaporatePheromone_double (Num r) ^^ Suc n) p) c = Num x'
                          \<and> x' < x)))
      \<and> (\<exists>n. \<forall>m \<ge> n. pheromone ((evaporatePheromone_double (Num r) ^^ m) p) c = Num 0))"
proof -
  have a: "evaporatePheromone_double rh p = p" if "type p \<noteq> TYPE_NORMAL"
    using that by (rule evaporatePheromone_double_other)
  have b: "pheromone (evaporatePheromone_double rh p) c =
          (if js_lt (to_double (js_mul (pheromone p c) (to_double (js_sub (Num 1) rh))))
                (to_double (Num (1 / 10 ^ 10)))
           then Num 0
           else to_double (js_mul (pheromone p c) (to_double (js_sub (Num 1) rh))))"
    if "type p = TYPE_NORMAL"
    using that by (rule evaporatePheromone_double_channel)
  have c: "(\<forall>n. \<exists>x. pheromone ((evaporatePheromone_double (Num r) ^^ n) p) c = Num x \<and> 0 \<le> x
               \<and> (0 < x \<longrightarrow>
                    (\<exists>x'. pheromone ((evaporatePheromone_double (Num r) ^^ Suc n) p) c = Num x'
                          \<and> x' < x)))
      \<and> (\<exists>n. \<forall>m \<ge> n. pheromone ((evaporatePheromone_double (Num r) ^^ m) p) c = Num 0)"
    if h: "type p = TYPE_NORMAL \<and> pheromone p c = Num v \<and> 0 < v \<and> v \<le> MAX_VALUE
        \<and> 1 / 2 ^ 54 < r \<and> r < 1"
  proof -
    define q :: real where "q = 1 - 1 / 2 ^ 106"
    have q: "0 < q" "q < 1" by (simp_all add: q_def)
    from h have t: "type p = TYPE_NORMAL" and pv: "pheromone p c = Num v" and v0: "0 < v"
      and vb: "v < overflow_bound" and r: "1 / 2 ^ 54 < r" "r < 1"
      using MAX_VALUE_lt_bound by auto
    have v0': "0 \<le> v" using v0 by simp
    note iter = evaporate_double_iter [OF t pv v0' vb r, folded q_def]
    have dec: "\<exists>x. pheromone ((evaporatePheromone_double (Num r) ^^ n) p) c = Num x \<and> 0 \<le> x
               \<and> (0 < x \<longrightarrow>
                    (\<exists>x'. pheromone ((evaporatePheromone_double (Num r) ^^ Suc n) p) c = Num x'
                          \<and> x' < x))" for n
    proof -
      let ?s = "(evaporatePheromone_double (Num r) ^^ n) p"
      from iter [of n] obtain x where x: "pheromone ?s c = Num x" "0 \<le> x" "x \<le> v * q ^ n"
        by blast
      have "q ^ n \<le> 1" using q by (intro power_le_one) simp_all
      then have "v * q ^ n \<le> v" using v0' by (rule mult_left_le)
      with x(3) vb have xb: "x < overflow_bound" by simp
      have ts: "type ?s = TYPE_NORMAL" using t by (simp only: evaporate_double_iter_type)
      from evaporate_double_step [OF ts x(1,2) xb r, folded q_def]
      obtain x' where x': "pheromone (evaporatePheromone_double (Num r) ?s) c = Num x'"
        "x' \<le> x * q" by blast
      have "x' < x" if "0 < x"
      proof -
        from that q(2) have "x * q < x" by simp
        with x'(2) show ?thesis by linarith
      qed
      moreover have "(evaporatePheromone_double (Num r) ^^ Suc n) p
          = evaporatePheromone_double (Num r) ?s" by simp
      ultimately show ?thesis using x(1,2) x'(1) by metis
    qed
    have "0 < 1 / 10 ^ 11 / v" using v0 by simp
    then obtain n where n: "q ^ n < 1 / 10 ^ 11 / v"
      using real_arch_pow_inv [OF _ q(2)] by blast
    have "pheromone ((evaporatePheromone_double (Num r) ^^ m) p) c = Num 0" if "Suc n \<le> m" for m
    proof -
      from iter [of m] that obtain x where
        x: "pheromone ((evaporatePheromone_double (Num r) ^^ m) p) c = Num x"
        "x \<le> v * q ^ m" "x = 0 \<or> 1 / 10 ^ 11 \<le> x" by auto
      have "q ^ m \<le> q ^ n" using q that by (intro power_decreasing) simp_all
      with n have "q ^ m < 1 / 10 ^ 11 / v" by linarith
      with v0 have "q ^ m * v < 1 / 10 ^ 11" by (simp only: pos_less_divide_eq)
      then have "v * q ^ m < 1 / 10 ^ 11" by (simp only: mult.commute)
      with x(2,3) have "x = 0" by linarith
      with x(1) show ?thesis by simp
    qed
    then have zero: "\<exists>n. \<forall>m \<ge> n. pheromone ((evaporatePheromone_double (Num r) ^^ m) p) c = Num 0"
      by blast
    from dec zero show ?thesis by blast
  qed
  from a b c show ?thesis by blast
qed

theorem evaporatePheromone_double_decay_witness:
  "pheromone (evaporatePheromone_double (Num (1 / 2)) (new_Position 0 0 (Some (Num 1)) None None))
     P_TYPE_FOOD = Num (1 / 2)
   \<and> (\<exists>x'. pheromone ((evaporatePheromone_double (Num (1 / 2)) ^^ Suc 0)
              (new_Position 0 0 (Some (Num 1)) None None)) P_TYPE_FOOD = Num x' \<and> x' < 1)
   \<and> (\<exists>n. \<forall>m \<ge> n. pheromone ((evaporatePheromone_double (Num (1 / 2)) ^^ m)
              (new_Position 0 0 (Some (Num 1)) None None)) P_TYPE_FOOD = Num 0)
   \<and> evaporatePheromone_double (Num (1 / 2))
       (changeType TYPE_FOOD (new_Position 0 0 None None None))
       = changeType TYPE_FOOD (new_Position 0 0 None None None)"
proof -
  let ?p = "new_Position 0 0 (Some (Num 1)) None None"
  let ?f = "changeType TYPE_FOOD (new_Position 0 0 None None None)"
  have t: "type ?p = TYPE_NORMAL" and pv: "pheromone ?p P_TYPE_FOOD = Num 1"
    by (simp_all add: new_Position_def)
  have m: "(1::real) \<le> MAX_VALUE" by (simp add: MAX_VALUE_def)
  have h: "(1 / 2 ^ 54 :: real) < 1 / 2" "(1 / 2 :: real) < 1" by simp_all
  have half: "to_double (js_mul (Num 1) (to_double (js_sub (Num 1) (Num (1 / 2))))) = Num (1 / 2)"
    by (simp add: js_sub_one_rate js_fin_small)
  have nlt: "\<not> js_lt (Num (1 / 2)) (to_double (Num (1 / 10 ^ 10)))"
    by (rule threshold_below) simp
  note inst = evaporatePheromone_double_decay [of ?p "Num (1 / 2)" P_TYPE_FOOD 1 "1 / 2"]
  from inst t have "pheromone (evaporatePheromone_double (Num (1 / 2)) ?p) P_TYPE_FOOD =
          (if js_lt (to_double (js_mul (pheromone ?p P_TYPE_FOOD) (to_double (js_sub (Num 1) (Num (1 / 2))))))
                (to_double (Num (1 / 10 ^ 10)))
           then Num 0
           else to_double (js_mul (pheromone ?p P_TYPE_FOOD) (to_double (js_sub (Num 1) (Num (1 / 2))))))"
    by blast
  then have a: "pheromone (evaporatePheromone_double (Num (1 / 2)) ?p) P_TYPE_FOOD = Num (1 / 2)"
    using nlt by (simp only: pv half if_False)
  from inst t pv m h
  have b: "\<forall>n. \<exists>x. pheromone ((evaporatePheromone_double (Num (1 / 2)) ^^ n) ?p) P_TYPE_FOOD = Num x
               \<and> 0 \<le> x
               \<and> (0 < x \<longrightarrow>
                    (\<exists>x'. pheromone ((evaporatePheromone_double (Num (1 / 2)) ^^ Suc n) ?p)
                            P_TYPE_FOOD = Num x' \<and> x' < x))"
    and c: "\<exists>n. \<forall>m \<ge> n. pheromone ((evaporatePheromone_double (Num (1 / 2)) ^^ m) ?p)
               P_TYPE_FOOD = Num 0"
    by simp_all
  from b [rule_format, of 0] pv
  have b0: "\<exists>x'. pheromone ((evaporatePheromone_double (Num (1 / 2)) ^^ Suc 0) ?p) P_TYPE_FOOD = Num x'
               \<and> x' < 1"
    by simp
  have "type ?f \<noteq> TYPE_NORMAL" by (simp add: changeType_def Let_def)
  with evaporatePheromone_double_decay [of ?f "Num (1 / 2)" P_TYPE_FOOD 1 "1 / 2"]
  have d: "evaporatePheromone_double (Num (1 / 2)) ?f = ?f" by blast
  from a b0 c d show ?thesis by blast
qed

text \<open>
  C3 as stated lets \<open>rho\<close> be any rate in \<open>(0, 1)\<close> and the value any \<open>p > 0\<close>. For
  \<open>rho = 2^-60\<close> the double \<open>1 - rho\<close> is 1, and a Normal cell holding 1 still holds 1
  after any number of evaporations; and a Normal cell holding Infinity keeps it under
  the rate \<open>1 / 2\<close>.
\<close>

theorem evaporatePheromone_counterexample:
  "(\<forall>n. pheromone ((evaporatePheromone_double (Num (1 / 2 ^ 60)) ^^ n)
           (new_Position 0 0 (Some (Num 1)) None None)) P_TYPE_FOOD = Num 1)
   \<and> (\<forall>n. pheromone ((evaporatePheromone_double (Num (1 / 2)) ^^ n)
           (new_Position 0 0 (Some PInf) None None)) P_TYPE_FOOD = PInf)"
proof -
  have r: "(0::real) < 1 / 2 ^ 60" "(1 / 2 ^ 60 :: real) \<le> 1 / 2 ^ 54" by simp_all
  have a: "pheromone ((evaporatePheromone_double (Num (1 / 2 ^ 60)) ^^ n)
           (new_Position 0 0 (Some (Num 1)) None None)) P_TYPE_FOOD = Num 1" for n
  proof (induction n)
    case 0
    show ?case by (simp add: new_Position_def)
  next
    case (Suc n)
    have "type ((evaporatePheromone_double (Num (1 / 2 ^ 60)) ^^ n)
           (new_Position 0 0 (Some (Num 1)) None None)) = TYPE_NORMAL"
      by (simp add: new_Position_def)
    from evaporate_double_absorbed [OF this Suc.IH r] show ?case by (simp only: funpow.simps o_apply)
  qed
  have b: "pheromone ((evaporatePheromone_double (Num (1 / 2)) ^^ n)
           (new_Position 0 0 (Some PInf) None None)) P_TYPE_FOOD = PInf" for n
  proof (induction n)
    case 0
    show ?case by (simp add: new_Position_def)
  next
    case (Suc n)
    have "type ((evaporatePheromone_double (Num (1 / 2)) ^^ n)
           (new_Position 0 0 (Some PInf) None None)) = TYPE_NORMAL"
      by (simp add: new_Position_def)
    from evaporate_double_infinite [OF this Suc.IH] show ?case by (simp only: funpow.simps o_apply)
  qed
  from a b show ?thesis by blast
qed

section \<open>The check list\<close>

lemma getCheckedIndex_from_notin:
  "position \<notin> set cs \<Longrightarrow> getCheckedIndex_from cs position i = - 1"
  by (induction cs arbitrary: i) auto

lemma getCheckedIndex_from_in:
  "position \<in> set cs \<Longrightarrow> 0 \<le> i \<Longrightarrow>
   \<exists>k < length cs. getCheckedIndex_from cs position i = i + int k
      \<and> cs ! k = position \<and> position \<notin> set (take k cs)"
proof (induction cs arbitrary: i)
  case Nil
  then show ?case by simp
next
  case (Cons c cs)
  show ?case
  proof (cases "position = c")
    case True
    then show ?thesis by (intro exI [of _ 0]) simp
  next
    case False
    with Cons.prems have "position \<in> set cs" by simp
    from Cons.IH [OF this, of "i + 1"] Cons.prems(2)
    obtain k where k: "k < length cs"
      "getCheckedIndex_from cs position (i + 1) = i + 1 + int k"
      "cs ! k = position" "position \<notin> set (take k cs)"
      by auto
    with False show ?thesis by (intro exI [of _ "Suc k"]) auto
  qed
qed

lemma splice1_distinct_removes:
  assumes "distinct xs" "k < length xs"
  shows "distinct (splice1 k xs)" "set (splice1 k xs) = set xs - {xs ! k}"
    "length (splice1 k xs) = length xs - 1"
proof -
  from assms(2) have split: "xs = take k xs @ xs ! k # drop (Suc k) xs"
    by (simp add: id_take_nth_drop)
  with assms(1) have d: "distinct (take k xs @ xs ! k # drop (Suc k) xs)" by simp
  then show "distinct (splice1 k xs)" by (simp add: splice1_def)
  have "set xs = set (take k xs @ xs ! k # drop (Suc k) xs)" using split by simp
  with d show "set (splice1 k xs) = set xs - {xs ! k}"
    unfolding splice1_def by auto
  from assms(2) show "length (splice1 k xs) = length xs - 1"
    by (simp add: splice1_def)
qed

lemma addCheckList_new:
  "position \<notin> set (checkList w) \<Longrightarrow>
   checkList (addCheckList w position) = checkList w @ [position]"
  by (simp add: addCheckList_def getCheckedIndex_def getCheckedIndex_from_notin)

lemma addCheckList_old:
  assumes "position \<in> set (checkList w)"
  shows "\<exists>k < length (checkList w). checkList w ! k = position
           \<and> checkList (addCheckList w position) = splice1 k (checkList w) @ [position]"
proof -
  from getCheckedIndex_from_in [OF assms, of 0]
  obtain k where k: "k < length (checkList w)"
    "getCheckedIndex_from (checkList w) position 0 = int k"
    "checkList w ! k = position"
    by auto
  then have "checkList (addCheckList w position) = splice1 k (checkList w) @ [position]"
    by (simp add: addCheckList_def getCheckedIndex_def)
  with k show ?thesis by blast
qed

lemma addCheckList_distinct:
  assumes "distinct (checkList w)"
  shows "distinct (checkList (addCheckList w position))"
proof (cases "position \<in> set (checkList w)")
  case False
  with assms show ?thesis by (simp add: addCheckList_new)
next
  case True
  from addCheckList_old [OF True] obtain k where k: "k < length (checkList w)"
    "checkList w ! k = position"
    "checkList (addCheckList w position) = splice1 k (checkList w) @ [position]"
    by blast
  with splice1_distinct_removes [OF assms k(1)] show ?thesis by simp
qed

lemma addCheckList_set:
  assumes "distinct (checkList w)"
  shows "set (checkList (addCheckList w position)) = insert position (set (checkList w))"
proof (cases "position \<in> set (checkList w)")
  case False
  then show ?thesis by (simp add: addCheckList_new)
next
  case True
  from addCheckList_old [OF True] obtain k where k: "k < length (checkList w)"
    "checkList w ! k = position"
    "checkList (addCheckList w position) = splice1 k (checkList w) @ [position]"
    by blast
  with splice1_distinct_removes [OF assms k(1)] True show ?thesis by auto
qed

lemma addCheckList_length_old:
  assumes "distinct (checkList w)" "position \<in> set (checkList w)"
  shows "length (checkList (addCheckList w position)) = length (checkList w)"
proof -
  from addCheckList_old [OF assms(2)] obtain k where k: "k < length (checkList w)"
    "checkList (addCheckList w position) = splice1 k (checkList w) @ [position]"
    by blast
  with splice1_distinct_removes(3) [OF assms(1) k(1)] show ?thesis by simp
qed

lemma addCheckList_last: "last (checkList (addCheckList w position)) = position"
  by (simp add: addCheckList_def Let_def)

lemma addCheckList_all_distinct:
  "distinct (checkList w) \<Longrightarrow> distinct (checkList (addCheckList_all w ps))"
  by (induction ps arbitrary: w) (simp_all add: addCheckList_distinct)

lemma addCheckList_all_set:
  "distinct (checkList w) \<Longrightarrow>
   set (checkList (addCheckList_all w ps)) = set (checkList w) \<union> set ps"
  by (induction ps arbitrary: w) (simp_all add: addCheckList_distinct addCheckList_set)

text \<open>
  C9. The check list starts empty (the constructor sets it to \<^verbatim>\<open>[]\<close>) and is written
  only by \<^verbatim>\<open>addCheckList\<close>. After any sequence of calls from a duplicate-free list
  (the empty one in particular) it holds no cell twice; and one more call for a cell
  already listed leaves the length and the listed cells unchanged and puts that cell
  at the end.
\<close>

theorem checkList_no_duplicates:
  assumes "distinct (checkList w)"
  shows "distinct (checkList (addCheckList_all w ps))
       \<and> (position \<in> set (checkList (addCheckList_all w ps)) \<longrightarrow>
            length (checkList (addCheckList (addCheckList_all w ps) position))
              = length (checkList (addCheckList_all w ps))
          \<and> set (checkList (addCheckList (addCheckList_all w ps) position))
              = set (checkList (addCheckList_all w ps))
          \<and> last (checkList (addCheckList (addCheckList_all w ps) position)) = position)"
proof -
  let ?w = "addCheckList_all w ps"
  have d: "distinct (checkList ?w)" using assms by (rule addCheckList_all_distinct)
  moreover have "length (checkList (addCheckList ?w position)) = length (checkList ?w)"
    if "position \<in> set (checkList ?w)"
    using d that by (rule addCheckList_length_old)
  moreover have "set (checkList (addCheckList ?w position)) = set (checkList ?w)"
    if "position \<in> set (checkList ?w)"
    using addCheckList_set [OF d, of position] that by auto
  ultimately show ?thesis by (simp add: addCheckList_last)
qed

theorem checkList_no_duplicates_witness:
  "distinct (checkList (addCheckList_all example_world [11, 12, 11, 14]))
   \<and> checkList (addCheckList_all example_world [11, 12, 11, 14]) = [12, 11, 14]
   \<and> checkList (addCheckList (addCheckList_all example_world [11, 12, 11, 14]) 12)
       = [11, 14, 12]"
proof -
  have e: "checkList example_world = []" by (simp add: example_world_def)
  have l: "checkList (addCheckList_all example_world [11, 12, 11, 14]) = [12, 11, 14]"
    by (simp add: addCheckList_def getCheckedIndex_def splice1_def e)
  from checkList_no_duplicates [of example_world "[11, 12, 11, 14]" 12] e
  have "distinct (checkList (addCheckList_all example_world [11, 12, 11, 14]))"
    and "last (checkList (addCheckList (addCheckList_all example_world [11, 12, 11, 14]) 12)) = 12"
    and "length (checkList (addCheckList (addCheckList_all example_world [11, 12, 11, 14]) 12))
      = length (checkList (addCheckList_all example_world [11, 12, 11, 14]))"
    by (simp_all add: l del: addCheckList_all.simps)
  moreover have "checkList (addCheckList (addCheckList_all example_world [11, 12, 11, 14]) 12)
       = [11, 14, 12]"
    by (simp add: addCheckList_def getCheckedIndex_def splice1_def l del: addCheckList_all.simps)
  ultimately show ?thesis using l by (simp del: addCheckList_all.simps)
qed

section \<open>Deposit\<close>

lemma addCheckList_cells [simp]: "cells (addCheckList w c) = cells w"
  by (simp add: addCheckList_def Let_def)

lemma addCheckList_wmap [simp]: "wmap (addCheckList w c) = wmap w"
  by (simp add: addCheckList_def Let_def)

lemma addCheckList_homePosition [simp]: "homePosition (addCheckList w c) = homePosition w"
  by (simp add: addCheckList_def Let_def)

lemma addPheromone_type [simp]: "type (addPheromone d t p) = type p"
  by (simp add: addPheromone_def)

lemma addPheromone_other: "type p \<noteq> TYPE_NORMAL \<Longrightarrow> addPheromone d t p = p"
  by (simp add: addPheromone_def)

lemma deposit_loop_cells:
  "cells (deposit_loop w cs d t) c = (addPheromone d t ^^ count_list cs c) (cells w c)"
proof (induction cs arbitrary: w)
  case Nil
  then show ?case by simp
next
  case (Cons x xs)
  show ?case
  proof (cases "x = c")
    case True
    then show ?thesis by (simp add: Cons.IH funpow_swap1)
  next
    case False
    then show ?thesis by (simp add: Cons.IH)
  qed
qed

lemma deposit_loop_frame:
  "wmap (deposit_loop w cs d t) = wmap w \<and> homePosition (deposit_loop w cs d t) = homePosition w"
  by (induction cs arbitrary: w) simp_all

lemma deposit_loop_checkList:
  "distinct (checkList w) \<Longrightarrow>
   distinct (checkList (deposit_loop w cs d t))
   \<and> set (checkList (deposit_loop w cs d t)) = set (checkList w) \<union> set cs"
proof (induction cs arbitrary: w)
  case Nil
  then show ?case by simp
next
  case (Cons x xs)
  let ?w = "addCheckList (w\<lparr>cells := (cells w)(x := addPheromone d t (cells w x))\<rparr>) x"
  from Cons.prems have d: "distinct (checkList (w\<lparr>cells := (cells w)(x := addPheromone d t (cells w x))\<rparr>))"
    by simp
  have "distinct (checkList ?w)" using d by (rule addCheckList_distinct)
  moreover have "set (checkList ?w) = insert x (set (checkList w))"
    using addCheckList_set [OF d, of x] by simp
  ultimately show ?case using Cons.IH [of ?w] by auto
qed

lemma addPheromone_iter_normal:
  "type p = TYPE_NORMAL \<Longrightarrow>
   pheromone ((addPheromone d t ^^ n) p) t = ((\<lambda>v. js_add v d) ^^ n) (pheromone p t)
   \<and> (\<forall>t'. t' \<noteq> t \<longrightarrow> pheromone ((addPheromone d t ^^ n) p) t' = pheromone p t')
   \<and> type ((addPheromone d t ^^ n) p) = TYPE_NORMAL"
  by (induction n) (auto simp: addPheromone_def)

lemma addPheromone_iter_other:
  "type p \<noteq> TYPE_NORMAL \<Longrightarrow> (addPheromone d t ^^ n) p = p"
  by (induction n) (simp_all add: addPheromone_other)


lemma splice1_set_insert:
  assumes "k < length xs"
  shows "insert (xs ! k) (set (splice1 k xs)) = set xs"
proof -
  from assms have "xs = take k xs @ xs ! k # drop (Suc k) xs"
    by (simp add: id_take_nth_drop)
  then have "set xs = set (take k xs @ xs ! k # drop (Suc k) xs)" by simp
  then show ?thesis by (auto simp: splice1_def)
qed

lemma addCheckList_set_any:
  "set (checkList (addCheckList w position)) = insert position (set (checkList w))"
proof (cases "position \<in> set (checkList w)")
  case False
  then show ?thesis by (simp add: addCheckList_new)
next
  case True
  from addCheckList_old [OF True] obtain k where k: "k < length (checkList w)"
    "checkList w ! k = position"
    "checkList (addCheckList w position) = splice1 k (checkList w) @ [position]"
    by blast
  with splice1_set_insert [OF k(1)] show ?thesis by auto
qed

lemma deposit_loop_checkList_set:
  "set (checkList (deposit_loop w cs d t)) = set (checkList w) \<union> set cs"
proof (induction cs arbitrary: w)
  case Nil
  then show ?case by simp
next
  case (Cons x xs)
  let ?w = "addCheckList (w\<lparr>cells := (cells w)(x := addPheromone d t (cells w x))\<rparr>) x"
  have "set (checkList ?w) = insert x (set (checkList w))"
    by (simp add: addCheckList_set_any)
  then show ?case using Cons.IH [of ?w] by auto
qed

lemma example_cells_simps:
  "type (example_cells 10) = TYPE_NORMAL" "type (example_cells 11) = TYPE_NORMAL"
  "type (example_cells 12) = TYPE_FOOD" "type (example_cells 13) = TYPE_BARRIER"
  "type (example_cells 14) = TYPE_HOME" "type (example_cells 15) = TYPE_NORMAL"
  "type (example_cells 18) = TYPE_NORMAL"
  "pheromone (example_cells 10) t = Num 0" "pheromone (example_cells 11) t = Num 0"
  "pheromone (example_cells 15) t = Num 0" "pheromone (example_cells 18) t = Num 0"
  by (simp_all add: example_cells_def new_Position_def changeType_def Let_def split: ptype.splits)

lemma js_add_small: "js_add (Num 0) (Num 20) = Num 20" "js_add (Num 20) (Num 20) = Num 40"
  "js_div (Num 100) (Num 5) = Num 20" "js_div (Num 100) (Num 4) = Num 25"
  "js_add (Num 0) (Num 25) = Num 25"
  by (simp_all add: js_fin_def overflow_bound_def)

text \<open>
  C2 (as amended). \<^verbatim>\<open>_depositPheromone\<close> does nothing for a path of length at most 1.
  For a longer path of length \<open>L\<close> it adds \<open>Q / L\<close> to the given channel of a Normal
  cell once for each occurrence of the cell in the path (a dead-end escape can put a
  cell on the path twice), leaves the other channel, the type and every cell that is
  not Normal unchanged, and registers every path cell in the check list. With
  \<open>Q = 100\<close> and \<open>L = 4\<close> a Normal cell that occurs once on the path gains exactly 25.
\<close>

theorem depositPheromone_per_occurrence:
  "(length (path a) \<le> 1 \<longrightarrow> depositPheromone P w a t = w)
   \<and> (1 < length (path a) \<longrightarrow>
        (type (cells w c) = TYPE_NORMAL \<longrightarrow>
           pheromone (cells (depositPheromone P w a t) c) t
             = ((\<lambda>v. js_add v (js_div (Q P) (Num (real (length (path a))))))
                  ^^ count_list (path a) c) (pheromone (cells w c) t)
         \<and> (\<forall>t'. t' \<noteq> t \<longrightarrow>
               pheromone (cells (depositPheromone P w a t) c) t' = pheromone (cells w c) t'))
      \<and> (type (cells w c) \<noteq> TYPE_NORMAL \<longrightarrow> cells (depositPheromone P w a t) c = cells w c)
      \<and> type (cells (depositPheromone P w a t) c) = type (cells w c)
      \<and> set (checkList (depositPheromone P w a t)) = set (checkList w) \<union> set (path a)
      \<and> (Q P = Num 100 \<and> length (path a) = 4 \<and> type (cells w c) = TYPE_NORMAL
           \<and> count_list (path a) c = 1 \<longrightarrow>
         pheromone (cells (depositPheromone P w a t) c) t
           = js_add (pheromone (cells w c) t) (Num 25)))"
proof -
  have noop: "depositPheromone P w a t = w" if "length (path a) \<le> 1"
    using that by (simp add: depositPheromone_def)
  define d where "d = js_div (Q P) (Num (real (length (path a))))"
  have dep: "depositPheromone P w a t = deposit_loop w (path a) d t" if "1 < length (path a)"
    using that by (simp add: depositPheromone_def d_def)
  have cell: "cells (depositPheromone P w a t) c
      = (addPheromone d t ^^ count_list (path a) c) (cells w c)" if "1 < length (path a)"
    by (simp only: dep [OF that] deposit_loop_cells)
  have normal: "pheromone (cells (depositPheromone P w a t) c) t
      = ((\<lambda>v. js_add v d) ^^ count_list (path a) c) (pheromone (cells w c) t)
      \<and> (\<forall>t'. t' \<noteq> t \<longrightarrow>
            pheromone (cells (depositPheromone P w a t) c) t' = pheromone (cells w c) t')
      \<and> type (cells (depositPheromone P w a t) c) = type (cells w c)"
    if "1 < length (path a)" "type (cells w c) = TYPE_NORMAL"
    using addPheromone_iter_normal
      [OF that(2), where d = d and t = t and n = "count_list (path a) c"] that(2)
    by (simp only: cell [OF that(1)]) simp
  have other: "cells (depositPheromone P w a t) c = cells w c"
    if "1 < length (path a)" "type (cells w c) \<noteq> TYPE_NORMAL"
    using addPheromone_iter_other [OF that(2)] by (simp only: cell [OF that(1)])
  have active: "set (checkList (depositPheromone P w a t)) = set (checkList w) \<union> set (path a)"
    if "1 < length (path a)"
    by (simp only: dep [OF that] deposit_loop_checkList_set)
  have four: "pheromone (cells (depositPheromone P w a t) c) t
           = js_add (pheromone (cells w c) t) (Num 25)"
    if h: "Q P = Num 100 \<and> length (path a) = 4 \<and> type (cells w c) = TYPE_NORMAL
           \<and> count_list (path a) c = 1"
  proof -
    have "d = Num 25" using h by (simp add: d_def js_fin_def overflow_bound_def)
    moreover from h have "1 < length (path a)" "type (cells w c) = TYPE_NORMAL" by simp_all
    ultimately show ?thesis
      using h normal by simp
  qed
  have ty: "type (cells (depositPheromone P w a t) c) = type (cells w c)"
    if "1 < length (path a)"
    using normal [OF that] other [OF that] by (cases "type (cells w c) = TYPE_NORMAL") simp_all
  show ?thesis
    unfolding d_def [symmetric]
    using noop normal other active four ty by blast
qed

theorem depositPheromone_per_occurrence_witness:
  "pheromone (cells (depositPheromone example_params example_world
      (example_ant [14, 11, 10, 11, 12] STATUS_FIND_FOOD) P_TYPE_FOOD) 11) P_TYPE_FOOD = Num 40
   \<and> pheromone (cells (depositPheromone example_params example_world
      (example_ant [14, 11, 10, 11, 12] STATUS_FIND_FOOD) P_TYPE_FOOD) 10) P_TYPE_FOOD = Num 20
   \<and> cells (depositPheromone example_params example_world
      (example_ant [14, 11, 10, 11, 12] STATUS_FIND_FOOD) P_TYPE_FOOD) 12 = cells example_world 12
   \<and> set (checkList (depositPheromone example_params example_world
      (example_ant [14, 11, 10, 11, 12] STATUS_FIND_FOOD) P_TYPE_FOOD)) = {10, 11, 12, 14}
   \<and> pheromone (cells (depositPheromone example_params example_world
      (example_ant [14, 18, 15, 12] STATUS_FIND_FOOD) P_TYPE_FOOD) 18) P_TYPE_FOOD = Num 25
   \<and> depositPheromone example_params example_world
      (example_ant [14] STATUS_FIND_FOOD) P_TYPE_FOOD = example_world"
proof -
  let ?a = "example_ant [14, 11, 10, 11, 12] STATUS_FIND_FOOD"
  have two: "(f ^^ 2) x = f (f x)" for f :: "jsnum \<Rightarrow> jsnum" and x
    by (simp add: numeral_2_eq_2)
  have facts: "length (path ?a) = 5" "count_list (path ?a) 11 = 2" "count_list (path ?a) 10 = 1"
    "Q example_params = Num 100" "cells example_world = example_cells"
    "checkList example_world = []"
    "length (path (example_ant [14, 18, 15, 12] STATUS_FIND_FOOD)) = 4"
    "count_list (path (example_ant [14, 18, 15, 12] STATUS_FIND_FOOD)) 18 = 1"
    "length (path (example_ant [14] STATUS_FIND_FOOD)) = 1"
    "set (path ?a) = {10, 11, 12, 14}"
    by (auto simp: example_ant_def example_params_def example_world_def)
  from depositPheromone_per_occurrence [of ?a example_params example_world P_TYPE_FOOD 11]
  have c1: "pheromone (cells (depositPheromone example_params example_world ?a P_TYPE_FOOD) 11)
      P_TYPE_FOOD = Num 40"
    by (simp add: facts example_cells_simps js_add_small two del: js_div.simps js_add.simps)
  from depositPheromone_per_occurrence [of ?a example_params example_world P_TYPE_FOOD 10]
  have c0: "pheromone (cells (depositPheromone example_params example_world ?a P_TYPE_FOOD) 10)
      P_TYPE_FOOD = Num 20"
    by (simp add: facts example_cells_simps js_add_small del: js_div.simps js_add.simps)
  from depositPheromone_per_occurrence [of ?a example_params example_world P_TYPE_FOOD 12]
  have c2: "cells (depositPheromone example_params example_world ?a P_TYPE_FOOD) 12
      = cells example_world 12"
    and cl: "set (checkList (depositPheromone example_params example_world ?a P_TYPE_FOOD))
      = {10, 11, 12, 14}"
    by (simp_all add: facts example_cells_simps)
  from depositPheromone_per_occurrence
    [of "example_ant [14, 18, 15, 12] STATUS_FIND_FOOD" example_params example_world P_TYPE_FOOD 18]
  have c8: "pheromone (cells (depositPheromone example_params example_world
      (example_ant [14, 18, 15, 12] STATUS_FIND_FOOD) P_TYPE_FOOD) 18) P_TYPE_FOOD = Num 25"
    by (simp add: facts example_cells_simps js_add_small del: js_div.simps js_add.simps)
  from depositPheromone_per_occurrence
    [of "example_ant [14] STATUS_FIND_FOOD" example_params example_world P_TYPE_FOOD 10]
  have n: "depositPheromone example_params example_world
      (example_ant [14] STATUS_FIND_FOOD) P_TYPE_FOOD = example_world"
    by (simp add: facts)
  from c1 c0 c2 cl c8 n show ?thesis by simp
qed

section \<open>The evaporation and rendering pass\<close>

lemma showPheromone_type [simp]: "type (showPheromone m t p) = type p"
  by (simp add: showPheromone_def Let_def)

lemma showPheromone_pheromone [simp]: "pheromone (showPheromone m t p) = pheromone p"
  by (simp add: showPheromone_def Let_def)

lemma showPheromone_other: "type p \<noteq> TYPE_NORMAL \<Longrightarrow> showPheromone m t p = p"
  by (simp add: showPheromone_def)

text \<open>Rendering twice with the same maximum is rendering once.\<close>

lemma showPheromone_idem: "showPheromone m t (showPheromone m t p) = showPheromone m t p"
  by (simp add: showPheromone_def Let_def)

lemma render_loop_notin: "c \<notin> set cs \<Longrightarrow> render_loop P cs m h c = h c"
  by (induction cs arbitrary: h) auto

lemma render_loop_in:
  "c \<in> set cs \<Longrightarrow> render_loop P cs m h c = showPheromone m (showPheromoneType P) (h c)"
proof (induction cs arbitrary: h)
  case Nil
  then show ?case by simp
next
  case (Cons x xs)
  show ?case
  proof (cases "c \<in> set xs")
    case True
    show ?thesis
      by (cases "x = c") (simp_all add: Cons.IH [OF True] showPheromone_idem)
  next
    case False
    with Cons.prems have "x = c" by simp
    with False show ?thesis by (simp add: render_loop_notin)
  qed
qed

text \<open>The evaporation loop: types are kept, and the maximum it returns.\<close>

lemma evaporate_loop_type [simp]:
  "type (fst (evaporate_loop P cs h m) c) = type (h c)"
  by (induction cs arbitrary: h m) (auto simp: Let_def)

lemma evaporate_loop_notin:
  "c \<notin> set cs \<Longrightarrow> fst (evaporate_loop P cs h m) c = h c"
  by (induction cs arbitrary: h m) (auto simp: Let_def)

lemma evaporate_loop_distinct_in:
  "distinct cs \<Longrightarrow> c \<in> set cs \<Longrightarrow>
   fst (evaporate_loop P cs h m) c = evaporatePheromone (rho P) (h c)"
proof (induction cs arbitrary: h m)
  case Nil
  then show ?case by simp
next
  case (Cons x xs)
  show ?case
  proof (cases "x = c")
    case True
    with Cons.prems have "c \<notin> set xs" by simp
    with True show ?thesis by (simp add: Let_def evaporate_loop_notin)
  next
    case False
    with Cons.prems Cons.IH show ?thesis by (simp add: Let_def)
  qed
qed


lemma js_lt_trans: "js_lt a b \<Longrightarrow> js_lt b c \<Longrightarrow> js_lt a c"
  by (cases a; cases b; cases c) simp_all

lemma js_lt_irrefl: "\<not> js_lt a a"
  by (cases a) simp_all

text \<open>
  The running maximum: it is the start value or the value of a Normal cell of the list,
  it is not below the start value, and no Normal cell of the list exceeds it.
\<close>

lemma evaporate_loop_max:
  assumes "distinct cs"
  shows "(snd (evaporate_loop P cs h m) = m
          \<or> (\<exists>c \<in> set cs. type (h c) = TYPE_NORMAL
                \<and> snd (evaporate_loop P cs h m)
                    = pheromone (fst (evaporate_loop P cs h m) c) (showPheromoneType P)))
       \<and> (snd (evaporate_loop P cs h m) = m \<or> js_lt m (snd (evaporate_loop P cs h m)))
       \<and> (\<forall>c \<in> set cs. type (h c) = TYPE_NORMAL \<longrightarrow>
             \<not> js_gt (pheromone (fst (evaporate_loop P cs h m) c) (showPheromoneType P))
                  (snd (evaporate_loop P cs h m)))"
  using assms
proof (induction cs arbitrary: h m)
  case Nil
  then show ?case by simp
next
  case (Cons x xs)
  define h1 where "h1 = h(x := evaporatePheromone (rho P) (h x))"
  define p where "p = getP (h1 x) (showPheromoneType P)"
  define m1 where "m1 = (if type (h1 x) = TYPE_NORMAL \<and> js_gt p m then p else m)"
  have unf: "evaporate_loop P (x # xs) h m = evaporate_loop P xs h1 m1"
    by (simp add: h1_def p_def m1_def Let_def)
  let ?M = "snd (evaporate_loop P xs h1 m1)"
  let ?H = "fst (evaporate_loop P xs h1 m1)"
  from Cons.prems have dx: "distinct xs" and xn: "x \<notin> set xs" by simp_all
  note IH = Cons.IH [OF dx, of h1 m1]
  have Hx: "?H x = h1 x" using xn by (simp add: evaporate_loop_notin)
  have ty: "type (h1 c) = type (h c)" for c by (simp add: h1_def)
  have px: "p = pheromone (?H x) (showPheromoneType P)" by (simp add: p_def getP_def Hx)
  have m1m: "m1 = m \<or> (type (h x) = TYPE_NORMAL \<and> m1 = p \<and> js_lt m p)"
    using ty [of x] by (auto simp: m1_def js_gt_def)
  have Mm1: "?M = m1 \<or> js_lt m1 ?M" using IH by blast
  have a: "?M = m \<or> (\<exists>c \<in> set (x # xs). type (h c) = TYPE_NORMAL
                \<and> ?M = pheromone (?H c) (showPheromoneType P))"
  proof -
    from IH have "?M = m1 \<or> (\<exists>c \<in> set xs. type (h1 c) = TYPE_NORMAL
                \<and> ?M = pheromone (?H c) (showPheromoneType P))" by blast
    then show ?thesis
    proof
      assume "?M = m1"
      with m1m px show ?thesis by auto
    next
      assume "\<exists>c \<in> set xs. type (h1 c) = TYPE_NORMAL
                \<and> ?M = pheromone (?H c) (showPheromoneType P)"
      then show ?thesis using ty by auto
    qed
  qed
  have b: "?M = m \<or> js_lt m ?M"
    using m1m Mm1 js_lt_trans by metis
  have c: "\<not> js_gt (pheromone (?H c) (showPheromoneType P)) ?M"
    if "c \<in> set (x # xs)" "type (h c) = TYPE_NORMAL" for c
  proof (cases "c = x")
    case False
    with that ty IH show ?thesis by auto
  next
    case True
    have "\<not> js_lt m1 p" using that(2) True ty [of x] by (auto simp: m1_def js_gt_def js_lt_irrefl)
    moreover have "js_lt m1 p" if "js_lt ?M p"
      using Mm1 that js_lt_trans by metis
    ultimately show ?thesis using True px by (auto simp: js_gt_def)
  qed
  from a b c show ?case unfolding unf by blast
qed

lemma showPheromone_opacity:
  assumes "type p = TYPE_NORMAL" "js_gt m (Num 0)"
  shows "opacity (showPheromone m t p) = Some (clamp_unit (js_div (pheromone p t) m))"
  using assms by (auto simp: showPheromone_def Let_def clamp_unit_def js_gt_def)

lemma clamp_unit_range:
  assumes "js_gt m (Num 0)"
  shows "\<exists>a. clamp_unit (js_div (Num x) m) = Num a \<and> 0 \<le> a \<and> a \<le> 1"
  using assms
  by (cases m) (auto simp: clamp_unit_def js_gt_def js_fin_def js_inf_def)


lemma js_lt_asym: "js_lt a b \<Longrightarrow> \<not> js_lt b a"
  by (cases a; cases b) simp_all

lemma evaporateAndRender_cells:
  "cells (evaporateAndRender P w)
     = render_loop P (checkList w)
         (if js_gt (snd (evaporate_loop P (checkList w) (cells w) (Num 0))) (Num 0)
          then snd (evaporate_loop P (checkList w) (cells w) (Num 0)) else Num 1)
         (fst (evaporate_loop P (checkList w) (cells w) (Num 0)))"
  by (simp add: evaporateAndRender_def Let_def split: prod.splits)

lemma example_trail_evaporated:
  "evaporatePheromone (rho example_params) (cells example_trail 11)
     = new_Position 0 1 (Some (Num (49 / 50))) None None"
  "evaporatePheromone (rho example_params) (cells example_trail 14) = example_cells 14"
  "type (cells example_trail 11) = TYPE_NORMAL" "type (cells example_trail 14) = TYPE_HOME"
  "opacity (cells example_trail 14) = None"
  "checkList example_trail = [11, 14]"
  by (auto simp: example_trail_def example_params_def example_cells_def new_Position_def
      evaporatePheromone_def Let_def js_sub_def js_fin_def overflow_bound_def fun_eq_iff
      split: ptype.splits)

text \<open>
  C1 (as amended). Let the check list be duplicate-free (C9) and let \<open>maxP\<close> be the
  largest displayed-channel value, after this pass's evaporation, among the Normal
  cells of the list, or 0 when none is positive. A listed Normal cell is handed the
  opacity \<open>clamp(value / renderMax, 0, 1)\<close> where \<open>value\<close> is its evaporated
  displayed-channel value and \<open>renderMax\<close> is \<open>maxP\<close> when \<open>maxP > 0\<close> and 1
  otherwise; for a finite value it lies in \<open>[0, 1]\<close>. A listed cell that is not Normal
  is handed nothing.
\<close>

theorem evaporateAndRender_intensity:
  assumes "distinct (checkList w)" "c \<in> set (checkList w)"
  shows "\<exists>maxP.
      (maxP = Num 0
        \<or> (\<exists>c' \<in> set (checkList w). type (cells w c') = TYPE_NORMAL
              \<and> pheromone (cells (evaporateAndRender P w) c') (showPheromoneType P) = maxP))
    \<and> (\<forall>c' \<in> set (checkList w). type (cells w c') = TYPE_NORMAL \<longrightarrow>
          \<not> js_gt (pheromone (cells (evaporateAndRender P w) c') (showPheromoneType P)) maxP)
    \<and> \<not> js_lt maxP (Num 0)
    \<and> pheromone (cells (evaporateAndRender P w) c)
        = pheromone (evaporatePheromone (rho P) (cells w c))
    \<and> type (cells (evaporateAndRender P w) c) = type (cells w c)
    \<and> (type (cells w c) = TYPE_NORMAL \<longrightarrow>
          opacity (cells (evaporateAndRender P w) c)
            = Some (clamp_unit
                (js_div (pheromone (cells (evaporateAndRender P w) c) (showPheromoneType P))
                   (if js_gt maxP (Num 0) then maxP else Num 1)))
        \<and> (\<forall>x. pheromone (cells (evaporateAndRender P w) c) (showPheromoneType P) = Num x \<longrightarrow>
              (\<exists>a. opacity (cells (evaporateAndRender P w) c) = Some (Num a)
                    \<and> 0 \<le> a \<and> a \<le> 1)))
    \<and> (type (cells w c) \<noteq> TYPE_NORMAL \<longrightarrow>
          opacity (cells (evaporateAndRender P w) c) = opacity (cells w c))"
proof -
  define H where "H = fst (evaporate_loop P (checkList w) (cells w) (Num 0))"
  define M where "M = snd (evaporate_loop P (checkList w) (cells w) (Num 0))"
  define R where "R = (if js_gt M (Num 0) then M else Num 1)"
  let ?st = "showPheromoneType P"
  have R0: "js_gt R (Num 0)" by (simp add: R_def js_gt_def)
  have cell: "cells (evaporateAndRender P w) c' = showPheromone R ?st (H c')"
    if "c' \<in> set (checkList w)" for c'
    using that by (simp add: evaporateAndRender_cells render_loop_in H_def M_def R_def)
  have Hc: "H c' = evaporatePheromone (rho P) (cells w c')" if "c' \<in> set (checkList w)" for c'
    unfolding H_def using assms(1) that by (rule evaporate_loop_distinct_in)
  have ph: "pheromone (cells (evaporateAndRender P w) c') = pheromone (H c')"
    if "c' \<in> set (checkList w)" for c'
    by (simp add: cell [OF that])
  have tyH: "type (H c') = type (cells w c')" for c'
    by (simp add: H_def)
  from evaporate_loop_max [OF assms(1), of P "cells w" "Num 0"]
  have m1: "M = Num 0 \<or> (\<exists>c' \<in> set (checkList w). type (cells w c') = TYPE_NORMAL
                \<and> M = pheromone (H c') ?st)"
    and m2: "M = Num 0 \<or> js_lt (Num 0) M"
    and m3: "\<forall>c' \<in> set (checkList w). type (cells w c') = TYPE_NORMAL \<longrightarrow>
                \<not> js_gt (pheromone (H c') ?st) M"
    unfolding H_def M_def by blast+
  have a: "M = Num 0 \<or> (\<exists>c' \<in> set (checkList w). type (cells w c') = TYPE_NORMAL
              \<and> pheromone (cells (evaporateAndRender P w) c') ?st = M)"
    using m1 ph by auto
  have b: "\<forall>c' \<in> set (checkList w). type (cells w c') = TYPE_NORMAL \<longrightarrow>
          \<not> js_gt (pheromone (cells (evaporateAndRender P w) c') ?st) M"
    using m3 ph by auto
  have c0: "\<not> js_lt M (Num 0)"
    using m2 js_lt_asym by (auto simp: js_lt_irrefl)
  have d: "pheromone (cells (evaporateAndRender P w) c)
        = pheromone (evaporatePheromone (rho P) (cells w c))"
    using ph [OF assms(2)] Hc [OF assms(2)] by simp
  have e: "type (cells (evaporateAndRender P w) c) = type (cells w c)"
    by (simp add: cell [OF assms(2)] tyH)
  have f: "opacity (cells (evaporateAndRender P w) c)
            = Some (clamp_unit (js_div (pheromone (cells (evaporateAndRender P w) c) ?st) R))"
    if "type (cells w c) = TYPE_NORMAL"
  proof -
    have "type (H c) = TYPE_NORMAL" using that by (simp add: tyH)
    from showPheromone_opacity [OF this R0, of ?st]
    show ?thesis by (simp add: cell [OF assms(2)])
  qed
  have g: "\<exists>a. opacity (cells (evaporateAndRender P w) c) = Some (Num a) \<and> 0 \<le> a \<and> a \<le> 1"
    if "type (cells w c) = TYPE_NORMAL"
      "pheromone (cells (evaporateAndRender P w) c) ?st = Num x" for x
    using f [OF that(1)] clamp_unit_range [OF R0, of x] that(2) by simp
  have h: "opacity (cells (evaporateAndRender P w) c) = opacity (cells w c)"
    if "type (cells w c) \<noteq> TYPE_NORMAL"
  proof -
    have "type (H c) \<noteq> TYPE_NORMAL" using that by (simp add: tyH)
    then have "cells (evaporateAndRender P w) c = H c"
      by (simp add: cell [OF assms(2)] showPheromone_other)
    moreover have "H c = cells w c"
      using that by (simp add: Hc [OF assms(2)] evaporatePheromone_other)
    ultimately show ?thesis by simp
  qed
  show ?thesis
    apply (rule exI [of _ M])
    using a b c0 d e f g h unfolding R_def by blast
qed

text \<open>
  C1 as stated divides by \<open>max(maxP, 1)\<close>, so by 1 when \<open>0 < maxP < 1\<close>. The code
  divides by \<open>maxP\<close> there: with the default evaporation rate a single Normal cell
  holding 1 evaporates to \<open>0.98\<close>, which is \<open>maxP\<close>, and is handed opacity 1, where
  the formula of the specification gives \<open>0.98\<close>.
\<close>

theorem evaporateAndRender_counterexample:
  "snd (evaporate_loop example_params (checkList example_trail) (cells example_trail) (Num 0))
     = Num (49 / 50)
   \<and> pheromone (cells (evaporateAndRender example_params example_trail) 11) P_TYPE_FOOD
     = Num (49 / 50)
   \<and> opacity (cells (evaporateAndRender example_params example_trail) 11) = Some (Num 1)
   \<and> claimed_intensity (Num (49 / 50)) (Num (49 / 50)) = Num (49 / 50)"
proof -
  have loop: "evaporate_loop example_params (checkList example_trail) (cells example_trail) (Num 0)
      = ((cells example_trail)
           (11 := new_Position 0 1 (Some (Num (49 / 50))) None None, 14 := example_cells 14),
         Num (49 / 50))"
    by (simp add: example_trail_evaporated Let_def getP_def)
       (simp add: example_trail_def example_params_def new_Position_def example_cells_def js_gt_def)
  have "claimed_intensity (Num (49 / 50)) (Num (49 / 50)) = Num (49 / 50)"
    by (simp add: claimed_intensity_def clamp_unit_def js_gt_def js_fin_def overflow_bound_def)
  moreover have "cells (evaporateAndRender example_params example_trail) 11
      = showPheromone (Num (49 / 50)) P_TYPE_FOOD (new_Position 0 1 (Some (Num (49 / 50))) None None)"
    by (simp add: evaporateAndRender_def loop js_gt_def)
       (simp add: example_trail_def example_params_def)
  ultimately show ?thesis
    by (simp add: loop showPheromone_def new_Position_def Let_def js_gt_def js_fin_def
        overflow_bound_def)
qed

theorem evaporateAndRender_intensity_witness:
  "distinct (checkList example_trail) \<and> 11 \<in> set (checkList example_trail)
   \<and> type (cells example_trail 11) = TYPE_NORMAL
   \<and> (\<exists>a. opacity (cells (evaporateAndRender example_params example_trail) 11) = Some (Num a)
          \<and> 0 \<le> a \<and> a \<le> 1)
   \<and> opacity (cells (evaporateAndRender example_params example_trail) 14) = None"
proof -
  have d: "distinct (checkList example_trail)" and i: "11 \<in> set (checkList example_trail)"
    and j: "14 \<in> set (checkList example_trail)"
    by (simp_all add: example_trail_evaporated)
  let ?w = "evaporateAndRender example_params example_trail"
  from evaporateAndRender_intensity [OF d i, of example_params]
  obtain maxP where
    ph: "pheromone (cells ?w 11)
           = pheromone (evaporatePheromone (rho example_params) (cells example_trail 11))"
    and op: "type (cells example_trail 11) = TYPE_NORMAL \<longrightarrow>
          opacity (cells ?w 11)
            = Some (clamp_unit
                (js_div (pheromone (cells ?w 11) (showPheromoneType example_params))
                   (if js_gt maxP (Num 0) then maxP else Num 1)))
        \<and> (\<forall>x. pheromone (cells ?w 11) (showPheromoneType example_params) = Num x \<longrightarrow>
              (\<exists>a. opacity (cells ?w 11) = Some (Num a) \<and> 0 \<le> a \<and> a \<le> 1))"
    by blast
  have "pheromone (cells ?w 11) (showPheromoneType example_params) = Num (49 / 50)"
    by (simp add: ph example_trail_evaporated(1))
       (simp add: new_Position_def example_params_def)
  with op example_trail_evaporated(3)
  have a: "\<exists>a. opacity (cells ?w 11) = Some (Num a) \<and> 0 \<le> a \<and> a \<le> 1"
    by blast
  from evaporateAndRender_intensity [OF d j, of example_params]
  have "type (cells example_trail 14) \<noteq> TYPE_NORMAL \<longrightarrow>
          opacity (cells ?w 14) = opacity (cells example_trail 14)"
    by blast
  then have b: "opacity (cells ?w 14) = None"
    by (simp add: example_trail_evaporated)
  from a b d i show ?thesis by (simp add: example_trail_evaporated)
qed

section \<open>Roulette-wheel selection\<close>

lemma rouletteWheel_loop_None:
  "rouletteWheel_loop ps r c i = None
   \<longleftrightarrow> (\<forall>k < length ps. \<not> js_le r (foldl js_add c (take (Suc k) ps)))"
proof (induction ps arbitrary: c i)
  case Nil
  then show ?case by simp
next
  case (Cons p ps)
  show ?case
  proof (cases "js_le r (js_add c p)")
    case True
    then show ?thesis by (auto simp: Let_def intro: exI [of _ 0])
  next
    case False
    have "(\<forall>k < length (p # ps). \<not> js_le r (foldl js_add c (take (Suc k) (p # ps))))
        \<longleftrightarrow> (\<forall>k < length ps. \<not> js_le r (foldl js_add (js_add c p) (take (Suc k) ps)))"
      using False by (auto simp: less_Suc_eq_0_disj)
    with False Cons.IH [of "js_add c p" "i + 1"] show ?thesis by (simp add: Let_def)
  qed
qed

lemma rouletteWheel_loop_Some:
  "rouletteWheel_loop ps r c i = Some j \<Longrightarrow>
   \<exists>k < length ps. j = i + int k \<and> js_le r (foldl js_add c (take (Suc k) ps))
      \<and> (\<forall>k' < k. \<not> js_le r (foldl js_add c (take (Suc k') ps)))"
proof (induction ps arbitrary: c i)
  case Nil
  then show ?case by simp
next
  case (Cons p ps)
  show ?case
  proof (cases "js_le r (js_add c p)")
    case True
    with Cons.prems have "j = i" by (simp add: Let_def)
    with True show ?thesis by (intro exI [of _ 0]) simp
  next
    case False
    with Cons.prems have "rouletteWheel_loop ps r (js_add c p) (i + 1) = Some j"
      by (simp add: Let_def)
    from Cons.IH [OF this] obtain k where k: "k < length ps" "j = i + 1 + int k"
      "js_le r (foldl js_add (js_add c p) (take (Suc k) ps))"
      "\<forall>k' < k. \<not> js_le r (foldl js_add (js_add c p) (take (Suc k') ps))"
      by blast
    have "\<not> js_le r (foldl js_add c (take (Suc k') (p # ps)))" if "k' < Suc k" for k'
      using that False k(4) by (cases k') simp_all
    with k(1,2,3) show ?thesis by (intro exI [of _ "Suc k"]) simp
  qed
qed

text \<open>
  C8. \<^verbatim>\<open>Ant.rouletteWheel\<close>, for the drawn value \<open>r\<close>, returns the first index whose
  running sum of probabilities is at least \<open>r\<close>; when no running sum reaches \<open>r\<close> it
  returns the last index; and for a non-empty vector the result is a valid index.
\<close>

theorem rouletteWheel_first_reaching:
  "(\<forall>k < length probs.
       js_le (Num r) (cumulative probs (Suc k))
       \<and> (\<forall>j < k. \<not> js_le (Num r) (cumulative probs (Suc j)))
       \<longrightarrow> rouletteWheel probs r = int k)
   \<and> ((\<forall>k < length probs. \<not> js_le (Num r) (cumulative probs (Suc k)))
       \<longrightarrow> rouletteWheel probs r = int (length probs) - 1)
   \<and> (probs \<noteq> [] \<longrightarrow> 0 \<le> rouletteWheel probs r \<and> rouletteWheel probs r < int (length probs))"
proof (intro conjI allI impI)
  fix k
  assume k: "k < length probs"
    and h: "js_le (Num r) (cumulative probs (Suc k))
       \<and> (\<forall>j < k. \<not> js_le (Num r) (cumulative probs (Suc j)))"
  then have "rouletteWheel_loop probs (Num r) (Num 0) 0 \<noteq> None"
    by (auto simp: rouletteWheel_loop_None cumulative_def)
  then obtain j where j: "rouletteWheel_loop probs (Num r) (Num 0) 0 = Some j" by auto
  from rouletteWheel_loop_Some [OF this] obtain k' where k': "k' < length probs" "j = int k'"
    "js_le (Num r) (cumulative probs (Suc k'))"
    "\<forall>i < k'. \<not> js_le (Num r) (cumulative probs (Suc i))"
    by (auto simp: cumulative_def)
  have "k' = k"
  proof (rule ccontr)
    assume "k' \<noteq> k"
    then consider "k' < k" | "k < k'" by linarith
    then show False using h k' by cases auto
  qed
  with j k' show "rouletteWheel probs r = int k" by (simp add: rouletteWheel_def)
next
  assume "\<forall>k < length probs. \<not> js_le (Num r) (cumulative probs (Suc k))"
  then have "rouletteWheel_loop probs (Num r) (Num 0) 0 = None"
    by (simp add: rouletteWheel_loop_None cumulative_def)
  then show "rouletteWheel probs r = int (length probs) - 1" by (simp add: rouletteWheel_def)
next
  assume ne: "probs \<noteq> []"
  show "0 \<le> rouletteWheel probs r"
  proof (cases "rouletteWheel_loop probs (Num r) (Num 0) 0")
    case None
    with ne show ?thesis by (cases probs) (simp_all add: rouletteWheel_def)
  next
    case (Some j)
    from rouletteWheel_loop_Some [OF this] show ?thesis by (auto simp: rouletteWheel_def Some)
  qed
  show "rouletteWheel probs r < int (length probs)"
  proof (cases "rouletteWheel_loop probs (Num r) (Num 0) 0")
    case None
    then show ?thesis by (simp add: rouletteWheel_def)
  next
    case (Some j)
    from rouletteWheel_loop_Some [OF this] show ?thesis by (auto simp: rouletteWheel_def Some)
  qed
qed

theorem rouletteWheel_first_reaching_witness:
  "rouletteWheel [Num (1 / 10), Num (3 / 10), Num (3 / 5)] (7 / 20) = 1
   \<and> rouletteWheel [Num (1 / 2), Num (1 / 4)] (9 / 10) = 1
   \<and> 0 \<le> rouletteWheel [Num (1 / 2), Num (1 / 4)] (9 / 10)
   \<and> rouletteWheel [Num (1 / 2), Num (1 / 4)] (9 / 10) < 2"
proof -
  have c1: "\<not> js_le (Num (7 / 20)) (cumulative [Num (1 / 10), Num (3 / 10), Num (3 / 5)] (Suc 0))"
    "js_le (Num (7 / 20)) (cumulative [Num (1 / 10), Num (3 / 10), Num (3 / 5)] (Suc (Suc 0)))"
    by (simp_all add: cumulative_def js_fin_small)
  have c2: "\<not> js_le (Num (9 / 10)) (cumulative [Num (1 / 2), Num (1 / 4)] (Suc 0))"
    "\<not> js_le (Num (9 / 10)) (cumulative [Num (1 / 2), Num (1 / 4)] (Suc (Suc 0)))"
    by (simp_all add: cumulative_def js_fin_small)
  note a = rouletteWheel_first_reaching [of "[Num (1 / 10), Num (3 / 10), Num (3 / 5)]" "7 / 20"]
  note b = rouletteWheel_first_reaching [of "[Num (1 / 2), Num (1 / 4)]" "9 / 10"]
  from a [THEN conjunct1, rule_format, of 1] c1
  have "rouletteWheel [Num (1 / 10), Num (3 / 10), Num (3 / 5)] (7 / 20) = 1"
    by simp
  moreover from b [THEN conjunct2, THEN conjunct1] c2
  have "rouletteWheel [Num (1 / 2), Num (1 / 4)] (9 / 10) = 1"
    by (simp add: less_Suc_eq)
  moreover from b [THEN conjunct2, THEN conjunct2]
  have "0 \<le> rouletteWheel [Num (1 / 2), Num (1 / 4)] (9 / 10)
      \<and> rouletteWheel [Num (1 / 2), Num (1 / 4)] (9 / 10) < 2"
    by simp
  ultimately show ?thesis by simp
qed

section \<open>Selecting the next cell\<close>

lemma Position_move_cell_at:
  "Position_move (cells w position) d (wmap w) 1
     = cell_at w (pos_x (cells w position) + fst d) (pos_y (cells w position) + snd d)"
  by (auto simp: Position_move_def cell_at_def Let_def)

lemma getNeighbors_from_set:
  "c \<in> set (getNeighbors_from w position ds) \<longleftrightarrow>
   (\<exists>d \<in> set ds. Position_move (cells w position) d (wmap w) 1 = Some c
      \<and> type (cells w c) \<noteq> TYPE_BARRIER)"
  by (induction ds) (auto split: option.splits)

lemma getNeighbors_sound:
  assumes "c \<in> set (getNeighbors P w position)"
  shows "type (cells w c) \<noteq> TYPE_BARRIER" "neighbor_of P w position c"
  using assms
  by (auto simp: getNeighbors_def getNeighbors_from_set neighbor_of_def Position_move_cell_at)

lemma isInPath_iff: "isInPath a position \<longleftrightarrow> position \<in> set (path a)"
proof -
  have "isInPath_from cs position \<longleftrightarrow> position \<in> set cs" for cs
    by (induction cs) auto
  then show ?thesis by (simp add: isInPath_def)
qed

lemma allowed_cells_cases:
  "allowed_cells P w a current =
     (if \<forall>n \<in> set (getNeighbors P w current). n \<in> set (path a)
      then getNeighbors P w current
      else filter (\<lambda>n. n \<notin> set (path a)) (getNeighbors P w current))"
  by (auto simp: allowed_cells_def Let_def isInPath_iff filter_empty_conv)

lemma allowed_cells_subset:
  "set (allowed_cells P w a current) \<subseteq> set (getNeighbors P w current)"
  by (auto simp: allowed_cells_cases)

lemma allowed_cells_nonempty:
  "getNeighbors P w current \<noteq> [] \<Longrightarrow> allowed_cells P w a current \<noteq> []"
  by (auto simp: allowed_cells_cases filter_empty_conv)

lemma desirability_loop_length:
  "length (fst (desirability_loop P w a cs vals s)) = length vals + length cs"
  by (induction cs arbitrary: vals s) (auto simp: Let_def split: prod.splits)

lemma normalize_values_length [simp]: "length (normalize_values vals s) = length vals"
  by (simp add: normalize_values_def)

lemma probabilities_length:
  "length (probabilities P w a current) = length (allowed_cells P w a current)"
  using desirability_loop_length [of P w a "allowed_cells P w a current" "[]" "Num 0"]
  by (auto simp: probabilities_def split: prod.splits)

lemma rouletteWheel_in_range:
  assumes "probs \<noteq> []"
  shows "0 \<le> rouletteWheel probs r \<and> rouletteWheel probs r < int (length probs)"
proof (cases "rouletteWheel_loop probs (Num r) (Num 0) 0")
  case None
  with assms show ?thesis by (cases probs) (simp_all add: rouletteWheel_def)
next
  case (Some j)
  from rouletteWheel_loop_Some [OF this] show ?thesis by (auto simp: rouletteWheel_def Some)
qed

lemma selectNext_Some:
  assumes "getNeighbors P w current \<noteq> []"
  shows "selectNext P w a current r
     = Some (allowed_cells P w a current ! nat (rouletteWheel (probabilities P w a current) r))"
    "nat (rouletteWheel (probabilities P w a current) r) < length (allowed_cells P w a current)"
proof -
  have "probabilities P w a current \<noteq> []"
    using allowed_cells_nonempty [OF assms, of a] probabilities_length [of P w a current]
    by (metis length_0_conv)
  from rouletteWheel_in_range [OF this, of r]
  have r: "0 \<le> rouletteWheel (probabilities P w a current) r"
    "rouletteWheel (probabilities P w a current) r < int (length (allowed_cells P w a current))"
    by (simp_all add: probabilities_length)
  with assms show "selectNext P w a current r
     = Some (allowed_cells P w a current ! nat (rouletteWheel (probabilities P w a current) r))"
    by (simp add: selectNext_def Let_def)
  from r show "nat (rouletteWheel (probabilities P w a current) r)
      < length (allowed_cells P w a current)"
    by simp
qed

lemma selectNext_None: "getNeighbors P w current = [] \<Longrightarrow> selectNext P w a current r = None"
  by (simp add: selectNext_def)

lemma selectNext_in_allowed:
  assumes "selectNext P w a current r = Some c"
  shows "c \<in> set (allowed_cells P w a current)"
proof -
  have ne: "getNeighbors P w current \<noteq> []"
    using assms by (auto simp: selectNext_def)
  from selectNext_Some [OF ne, of a r] assms show ?thesis by (metis nth_mem option.inject)
qed

subsection \<open>The example grid\<close>

lemma example_world_simps:
  "wmap example_world = [[10, 11, 12], [13, 14, 15], [16, 17, 18]]"
  "cells example_world = example_cells" "checkList example_world = []"
  "homePosition example_world = 14"
  by (simp_all add: example_world_def)

lemma example_params_simps:
  "alpha example_params = Num 1" "beta example_params = Num 2"
  "rho example_params = Num (1 / 50)" "Q example_params = Num 100"
  "tau0 example_params = Num (1 / 100)"
  "Direction_M example_params
     = [(- 1, - 1), (0, - 1), (1, - 1), (- 1, 0), (1, 0), (- 1, 1), (0, 1), (1, 1)]"
  by (simp_all add: example_params_def)

lemma example_cells_pos:
  "pos_x (example_cells 10) = 0" "pos_y (example_cells 10) = 0"
  "pos_x (example_cells 11) = 0" "pos_y (example_cells 11) = 1"
  "pos_x (example_cells 12) = 0" "pos_y (example_cells 12) = 2"
  "pos_x (example_cells 14) = 1" "pos_y (example_cells 14) = 1"
  "pos_x (example_cells 15) = 1" "pos_y (example_cells 15) = 2"
  by (simp_all add: example_cells_def new_Position_def changeType_def Let_def)

lemma example_cells_types:
  "type (example_cells 10) = TYPE_NORMAL" "type (example_cells 11) = TYPE_NORMAL"
  "type (example_cells 12) = TYPE_FOOD" "type (example_cells 13) = TYPE_BARRIER"
  "type (example_cells 14) = TYPE_HOME" "type (example_cells 15) = TYPE_NORMAL"
  by (simp_all add: example_cells_def new_Position_def changeType_def Let_def)

lemma example_neighbors:
  "getNeighbors example_params example_world 10 = [11, 14]"
  "getNeighbors example_params example_world 11 = [10, 14, 12, 15]"
  by (simp_all add: getNeighbors_def example_params_simps example_world_simps
      Position_move_def example_cells_pos example_cells_types)


lemma example_cells_pheromone:
  "pheromone (example_cells 10) t = Num 0" "pheromone (example_cells 11) t = Num 0"
  "pheromone (example_cells 15) t = Num 0"
  "pheromone (example_cells 12) P_TYPE_FOOD = Num MAX_VALUE"
  "pheromone (example_cells 12) P_TYPE_HOME = Num 0"
  "pheromone (example_cells 14) P_TYPE_FOOD = Num 0"
  "pheromone (example_cells 14) P_TYPE_HOME = Num MAX_VALUE"
  by (simp_all add: example_cells_def new_Position_def changeType_def Let_def split: ptype.splits)

lemma example_ant_simps:
  "path (example_ant p st) = p" "status (example_ant p st) = st"
  "ant_home (example_ant p st) = 14"
  by (simp_all add: example_ant_def)

lemma example_dead_end:
  "allowed_cells example_params example_world (example_ant [14, 11, 10] STATUS_FIND_FOOD) 10
     = [11, 14]"
  "probabilities example_params example_world (example_ant [14, 11, 10] STATUS_FIND_FOOD) 10
     = [Num (1 / 2), Num (1 / 2)]"
  "selectNext example_params example_world (example_ant [14, 11, 10] STATUS_FIND_FOOD) 10 (3 / 10)
     = Some 11"
proof -
  let ?a = "example_ant [14, 11, 10] STATUS_FIND_FOOD"
  show al: "allowed_cells example_params example_world ?a 10 = [11, 14]"
    by (simp add: allowed_cells_cases example_neighbors example_ant_simps)
  show pr: "probabilities example_params example_world ?a 10 = [Num (1 / 2), Num (1 / 2)]"
    by (simp add: probabilities_def al example_ant_simps example_world_simps
        example_params_simps getP_def example_cells_pheromone js_fin_small normalize_values_def
        js_gt_def Let_def)
  show "selectNext example_params example_world ?a 10 (3 / 10) = Some 11"
    by (simp add: selectNext_def example_neighbors al pr rouletteWheel_def js_fin_small Let_def)
qed


text \<open>
  C4. A cell selected by \<^verbatim>\<open>_selectNext\<close> is a neighbour of the current cell: it lies
  in the grid one offset away and is not a Barrier. It is on the ant's path only if
  every neighbour is (the dead end), and then the candidates are all the neighbours.
  Whenever there is a neighbour a cell is selected, otherwise none.
\<close>

theorem selectNext_tabu:
  "(selectNext P w a current r = Some c \<longrightarrow>
      c \<in> set (getNeighbors P w current)
    \<and> type (cells w c) \<noteq> TYPE_BARRIER \<and> neighbor_of P w current c
    \<and> (c \<in> set (path a) \<longrightarrow> (\<forall>n \<in> set (getNeighbors P w current). n \<in> set (path a))))
   \<and> ((\<forall>n \<in> set (getNeighbors P w current). n \<in> set (path a)) \<longrightarrow>
        allowed_cells P w a current = getNeighbors P w current)
   \<and> (\<forall>n \<in> set (allowed_cells P w a current). type (cells w n) \<noteq> TYPE_BARRIER \<and> neighbor_of P w current n)
   \<and> (getNeighbors P w current \<noteq> [] \<longrightarrow> (\<exists>n. selectNext P w a current r = Some n))
   \<and> (getNeighbors P w current = [] \<longrightarrow> selectNext P w a current r = None)"
proof -
  have a: "c \<in> set (getNeighbors P w current)
    \<and> type (cells w c) \<noteq> TYPE_BARRIER \<and> neighbor_of P w current c
    \<and> (c \<in> set (path a) \<longrightarrow> (\<forall>n \<in> set (getNeighbors P w current). n \<in> set (path a)))"
    if "selectNext P w a current r = Some c"
  proof -
    from selectNext_in_allowed [OF that] have al: "c \<in> set (allowed_cells P w a current)" .
    with allowed_cells_subset have n: "c \<in> set (getNeighbors P w current)" by blast
    have "\<forall>n \<in> set (getNeighbors P w current). n \<in> set (path a)" if "c \<in> set (path a)"
      using al that by (auto simp: allowed_cells_cases split: if_splits)
    with n getNeighbors_sound [OF n] show ?thesis by blast
  qed
  have b: "allowed_cells P w a current = getNeighbors P w current"
    if "\<forall>n \<in> set (getNeighbors P w current). n \<in> set (path a)"
    using that by (simp add: allowed_cells_cases)
  have c: "\<forall>n \<in> set (allowed_cells P w a current). type (cells w n) \<noteq> TYPE_BARRIER \<and> neighbor_of P w current n"
    using allowed_cells_subset getNeighbors_sound by blast
  have d: "\<exists>n. selectNext P w a current r = Some n" if "getNeighbors P w current \<noteq> []"
    using selectNext_Some(1) [OF that] by blast
  from a b c d selectNext_None show ?thesis by blast
qed

theorem selectNext_tabu_witness:
  "selectNext example_params example_world (example_ant [14, 11, 10] STATUS_FIND_FOOD) 10 (3 / 10)
     = Some 11
   \<and> 11 \<in> set (path (example_ant [14, 11, 10] STATUS_FIND_FOOD))
   \<and> set (getNeighbors example_params example_world 10)
       \<subseteq> set (path (example_ant [14, 11, 10] STATUS_FIND_FOOD))
   \<and> type (cells example_world 11) \<noteq> TYPE_BARRIER
   \<and> (\<exists>n. selectNext example_params example_world (example_ant [14, 11] STATUS_FIND_FOOD) 11
              (1 / 2) = Some n
          \<and> n \<notin> set (path (example_ant [14, 11] STATUS_FIND_FOOD))
          \<and> type (cells example_world n) \<noteq> TYPE_BARRIER)"
proof -
  let ?a = "example_ant [14, 11, 10] STATUS_FIND_FOOD"
  let ?b = "example_ant [14, 11] STATUS_FIND_FOOD"
  note s = example_dead_end(3)
  have i: "11 \<in> set (path ?a)" by (simp add: example_ant_simps)
  from selectNext_tabu [of example_params example_world ?a 10 "3 / 10" 11] s i
  have "type (cells example_world 11) \<noteq> TYPE_BARRIER"
    and "\<forall>n \<in> set (getNeighbors example_params example_world 10). n \<in> set (path ?a)"
    by blast+
  then have one: "type (cells example_world 11) \<noteq> TYPE_BARRIER
     \<and> set (getNeighbors example_params example_world 10) \<subseteq> set (path ?a)"
    by blast
  have ne: "getNeighbors example_params example_world 11 \<noteq> []"
    and free: "10 \<in> set (getNeighbors example_params example_world 11)" "10 \<notin> set (path ?b)"
    by (simp_all add: example_neighbors example_ant_simps)
  from selectNext_tabu [of example_params example_world ?b 11 "1 / 2"] ne
  obtain n where n: "selectNext example_params example_world ?b 11 (1 / 2) = Some n"
    by blast
  from selectNext_tabu [of example_params example_world ?b 11 "1 / 2" n] n free
  have "n \<notin> set (path ?b) \<and> type (cells example_world n) \<noteq> TYPE_BARRIER"
    by blast
  with n s i one show ?thesis by blast
qed

section \<open>Desirability and the probability vector\<close>

lemma js_sqrt_dist:
  "js_sqrt (Num (real_of_int
      ((pos_x c - pos_x h) * (pos_x c - pos_x h) + (pos_y c - pos_y h) * (pos_y c - pos_y h))))
     = Num (euclid_dist c h)"
proof -
  define n where
    "n = (pos_x c - pos_x h) * (pos_x c - pos_x h) + (pos_y c - pos_y h) * (pos_y c - pos_y h)"
  have "0 \<le> n" by (simp add: n_def)
  then have "js_sqrt (Num (real_of_int n)) = Num (sqrt (real_of_int n))" by simp
  moreover have "euclid_dist c h = sqrt (real_of_int n)"
    by (simp only: euclid_dist_def n_def power2_eq_square)
  ultimately show ?thesis by (simp only: n_def)
qed

lemma desirability_step:
  "desirability_loop P w a (c # rest) vals s
     = desirability_loop P w a rest (vals @ [spec_desirability P w a c])
         (js_add s (spec_desirability P w a c))"
  apply (subst desirability_loop.simps(2))
  apply (simp only: Let_def js_sqrt_dist)
  apply (simp add: spec_desirability_def spec_tau_def spec_eta_def getP_def js_gt_def
      split: ant_status.splits)
  done

lemma desirability_loop_map:
  "desirability_loop P w a cs vals s
     = (vals @ map (spec_desirability P w a) cs,
        foldl js_add s (map (spec_desirability P w a) cs))"
proof (induction cs arbitrary: vals s)
  case Nil
  then show ?case by simp
next
  case (Cons c cs)
  show ?case by (simp only: desirability_step Cons.IH) simp
qed

lemma example_carry_neighbors:
  "getNeighbors example_params example_world 12 = [11, 14, 15]"
  by (simp add: getNeighbors_def example_params_simps example_world_simps
      Position_move_def example_cells_pos example_cells_types)

lemma example_carry_allowed:
  "allowed_cells example_params example_world (example_ant [12] STATUS_CARRY_FOOD) 12
     = [11, 14, 15]"
  by (simp add: allowed_cells_cases example_carry_neighbors example_ant_simps)

lemma example_dist:
  "euclid_dist (example_cells 11) (example_cells 14) = 1"
  "euclid_dist (example_cells 14) (example_cells 14) = 0"
  "euclid_dist (example_cells 15) (example_cells 14) = 1"
  by (simp_all add: euclid_dist_def example_cells_pos)

lemma MAX_VALUE_arith:
  "js_add (Num MAX_VALUE) (Num (1 / 100)) = Num (MAX_VALUE + 1 / 100)"
  "js_pow (Num (MAX_VALUE + 1 / 100)) (Num 1) = Num (MAX_VALUE + 1 / 100)"
  "js_mul (Num (MAX_VALUE + 1 / 100)) (Num 10000) = PInf"
  by (simp_all add: js_fin_def MAX_VALUE_def overflow_bound_def)

lemma small_arith:
  "js_add (Num 0) (Num (1 / 100)) = Num (1 / 100)"
  "js_pow (Num (1 / 100)) (Num 1) = Num (1 / 100)"
  "js_pow (Num 1) (Num 2) = Num 1"
  "js_pow (Num 100) (Num 2) = Num 10000"
  "js_div (Num 1) (Num 1) = Num 1"
  "js_mul (Num (1 / 100)) (Num 1) = Num (1 / 100)"
  by (simp_all add: js_fin_small) (simp add: js_fin_def overflow_bound_def)

lemma example_carry_desirability:
  "spec_desirability example_params example_world (example_ant [12] STATUS_CARRY_FOOD) 11
     = Num (1 / 100)"
  "spec_desirability example_params example_world (example_ant [12] STATUS_CARRY_FOOD) 14 = PInf"
  "spec_desirability example_params example_world (example_ant [12] STATUS_CARRY_FOOD) 15
     = Num (1 / 100)"
  by (simp_all add: spec_desirability_def spec_tau_def spec_eta_def example_ant_simps
      example_world_simps example_params_simps example_cells_pheromone example_dist
      MAX_VALUE_arith small_arith
      del: js_add.simps js_pow.simps js_mul.simps js_div.simps)

text \<open>
  C6. The values that \<^verbatim>\<open>_selectNext\<close> computes for the candidates are, in order,
  \<open>tau^alpha * eta^beta\<close>: for a seeking ant \<open>tau\<close> is the food pheromone plus
  \<open>tau0\<close> and \<open>eta\<close> is 1; for a carrying ant \<open>tau\<close> is the home pheromone plus
  \<open>tau0\<close> and \<open>eta\<close> is the inverse of the Euclidean distance to the home cell,
  or 100 at distance 0. Their running sum is the sum that normalisation divides by.
\<close>

theorem desirability_formula:
  "desirability_loop P w a cs [] (Num 0)
     = (map (spec_desirability P w a) cs,
        foldl js_add (Num 0) (map (spec_desirability P w a) cs))
   \<and> probabilities P w a current
     = normalize_values (map (spec_desirability P w a) (allowed_cells P w a current))
         (foldl js_add (Num 0) (map (spec_desirability P w a) (allowed_cells P w a current)))"
  by (simp add: desirability_loop_map probabilities_def)

theorem desirability_formula_witness:
  "fst (desirability_loop example_params example_world (example_ant [12] STATUS_CARRY_FOOD)
      [11, 14, 15] [] (Num 0)) = [Num (1 / 100), PInf, Num (1 / 100)]
   \<and> snd (desirability_loop example_params example_world (example_ant [12] STATUS_CARRY_FOOD)
      [11, 14, 15] [] (Num 0)) = PInf"
  using desirability_formula
    [of example_params example_world "example_ant [12] STATUS_CARRY_FOOD" "[11, 14, 15]" 12]
  by (simp add: example_carry_desirability js_fin_small)

lemma foldl_js_add_finite:
  "0 \<le> a \<Longrightarrow> \<forall>x \<in> set xs. 0 \<le> x \<Longrightarrow> a + sum_list xs < overflow_bound \<Longrightarrow>
   foldl js_add (Num a) (map Num xs) = Num (a + sum_list xs)"
proof (induction xs arbitrary: a)
  case Nil
  then show ?case by simp
next
  case (Cons x xs)
  have s: "0 \<le> sum_list xs" using Cons.prems(2) by (intro sum_list_nonneg) simp
  have x: "0 \<le> x" using Cons.prems(2) by simp
  have "\<bar>a + x\<bar> < overflow_bound" using Cons.prems(1,3) s x by simp
  then have "js_add (Num a) (Num x) = Num (a + x)" by (simp add: js_fin_Num)
  moreover have "foldl js_add (Num (a + x)) (map Num xs) = Num (a + x + sum_list xs)"
    using Cons.prems x by (intro Cons.IH) (simp_all add: add.assoc)
  ultimately show ?case by (simp add: add.assoc)
qed

lemma member_le_sum_list_real:
  fixes xs :: "real list"
  shows "\<forall>y \<in> set xs. 0 \<le> y \<Longrightarrow> x \<in> set xs \<Longrightarrow> x \<le> sum_list xs"
proof (induction xs)
  case Nil
  then show ?case by simp
next
  case (Cons y ys)
  have s: "0 \<le> sum_list ys" using Cons.prems(1) by (intro sum_list_nonneg) simp
  show ?case
  proof (cases "x = y")
    case True
    with s show ?thesis by simp
  next
    case False
    with Cons have "x \<le> sum_list ys" by simp
    moreover have "0 \<le> y" using Cons.prems(1) by simp
    ultimately show ?thesis by simp
  qed
qed

text \<open>
  Where no value overflows, normalisation does give a probability vector: for finite
  non-negative values with a finite sum the probabilities are \<open>value / sum\<close> when the
  sum is positive and \<open>1 / N\<close> each when it is 0, and in both cases they add up to 1.
\<close>

lemma normalize_values_finite:
  assumes "xs \<noteq> []" "\<forall>x \<in> set xs. 0 \<le> x" "sum_list xs < overflow_bound"
  shows "foldl js_add (Num 0) (map Num xs) = Num (sum_list xs)"
    and "0 < sum_list xs \<Longrightarrow>
         normalize_values (map Num xs) (Num (sum_list xs)) = map (\<lambda>x. Num (x / sum_list xs)) xs
         \<and> sum_list (map (\<lambda>x. x / sum_list xs) xs) = 1"
    and "sum_list xs = 0 \<Longrightarrow>
         normalize_values (map Num xs) (Num (sum_list xs))
           = map (\<lambda>x. Num (1 / real (length xs))) xs
         \<and> sum_list (map (\<lambda>x. 1 / real (length xs)) xs) = 1"
proof -
  show "foldl js_add (Num 0) (map Num xs) = Num (sum_list xs)"
    using foldl_js_add_finite [of 0 xs] assms by simp
next
  assume pos: "0 < sum_list xs"
  have "js_div (Num x) (Num (sum_list xs)) = Num (x / sum_list xs)" if "x \<in> set xs" for x
  proof -
    have "0 \<le> x" "x \<le> sum_list xs"
      using assms(2) that member_le_sum_list_real by auto
    then have "0 \<le> x / sum_list xs" "x / sum_list xs \<le> 1" using pos by simp_all
    then have "\<bar>x / sum_list xs\<bar> < overflow_bound" using overflow_bound_gt2 by simp
    with pos show ?thesis by (simp add: js_fin_Num)
  qed
  then have "normalize_values (map Num xs) (Num (sum_list xs))
      = map (\<lambda>x. Num (x / sum_list xs)) xs"
    using pos by (simp add: normalize_values_def js_gt_def)
  moreover have "sum_list (map (\<lambda>x. x / sum_list xs) xs) = 1"
  proof -
    have "sum_list (map (\<lambda>x. x * (1 / sum_list xs)) xs) = sum_list xs * (1 / sum_list xs)"
      by (simp only: sum_list_mult_const) simp
    with pos show ?thesis by simp
  qed
  ultimately show "normalize_values (map Num xs) (Num (sum_list xs))
      = map (\<lambda>x. Num (x / sum_list xs)) xs
    \<and> sum_list (map (\<lambda>x. x / sum_list xs) xs) = 1"
    by simp
next
  assume z: "sum_list xs = 0"
  have n: "0 < length xs" using assms(1) by simp
  then have one: "1 \<le> real (length xs)" by (cases xs) simp_all
  then have "0 < real (length xs)" by linarith
  with one have "0 \<le> 1 / real (length xs)" "1 / real (length xs) \<le> 1"
    by (simp_all only: divide_le_eq_1_pos zero_le_divide_1_iff less_imp_le)
  then have "\<bar>1 / real (length xs)\<bar> < overflow_bound" using overflow_bound_gt2 by simp
  then have "js_div (Num 1) (Num (real (length xs))) = Num (1 / real (length xs))"
    using n by (simp add: js_fin_Num)
  then have "normalize_values (map Num xs) (Num (sum_list xs))
           = map (\<lambda>x. Num (1 / real (length xs))) xs"
    using z by (simp add: normalize_values_def js_gt_def)
  moreover have "sum_list (map (\<lambda>x. 1 / real (length xs)) xs) = 1"
    using n by (simp add: sum_list_triv)
  ultimately show "normalize_values (map Num xs) (Num (sum_list xs))
           = map (\<lambda>x. Num (1 / real (length xs))) xs
         \<and> sum_list (map (\<lambda>x. 1 / real (length xs)) xs) = 1"
    by simp
qed

text \<open>
  C5 at an input where it fails. With the default parameters a carrying ant on the Food
  cell 12, next to the home cell, has the candidates 11, 14 (home) and 15. The home
  cell holds \<^verbatim>\<open>Number.MAX_VALUE\<close> on the home channel and its heuristic is 100, so its
  value \<open>(MAX_VALUE + 0.01) * 100^2\<close> overflows to Infinity, and so does the sum. The
  normalised vector is \<open>[0, NaN, 0]\<close>: it does not sum to 1 (its running sum is NaN),
  and the roulette wheel then returns the last candidate, cell 15, for every positive
  draw.
\<close>

theorem probabilities_overflow:
  "allowed_cells example_params example_world (example_ant [12] STATUS_CARRY_FOOD) 12
     = [11, 14, 15]
   \<and> probabilities example_params example_world (example_ant [12] STATUS_CARRY_FOOD) 12
     = [Num 0, NaN, Num 0]
   \<and> cumulative
       (probabilities example_params example_world (example_ant [12] STATUS_CARRY_FOOD) 12) 3
     = NaN
   \<and> selectNext example_params example_world (example_ant [12] STATUS_CARRY_FOOD) 12 (1 / 2)
     = Some 15"
proof -
  let ?a = "example_ant [12] STATUS_CARRY_FOOD"
  have pr: "probabilities example_params example_world ?a 12 = [Num 0, NaN, Num 0]"
    by (simp add: probabilities_def desirability_loop_map example_carry_allowed
        example_carry_desirability normalize_values_def js_gt_def js_fin_small)
  have "cumulative [Num 0, NaN, Num 0] 3 = NaN"
    by (simp add: cumulative_def js_fin_small)
  moreover have "selectNext example_params example_world ?a 12 (1 / 2) = Some 15"
    by (simp add: selectNext_def example_carry_neighbors example_carry_allowed pr
        rouletteWheel_def js_fin_small Let_def)
  ultimately show ?thesis by (simp add: pr example_carry_allowed)
qed

section \<open>A foraging walk through a dead end\<close>

lemma corridor_simps:
  "wmap (corridor_world cl) = [[20, 21, 22, 23, 24]]" "cells (corridor_world cl) = corridor_cells"
  "checkList (corridor_world cl) = cl" "homePosition (corridor_world cl) = 22"
  "path (corridor_ant p) = p" "status (corridor_ant p) = STATUS_FIND_FOOD"
  "maxPath (corridor_ant p) = 1750"
  by (simp_all add: corridor_world_def corridor_ant_def)

lemma corridor_cells_simps:
  "pos_x (corridor_cells 20) = 0" "pos_y (corridor_cells 20) = 0"
  "pos_x (corridor_cells 21) = 0" "pos_y (corridor_cells 21) = 1"
  "pos_x (corridor_cells 22) = 0" "pos_y (corridor_cells 22) = 2"
  "pos_x (corridor_cells 23) = 0" "pos_y (corridor_cells 23) = 3"
  "pos_x (corridor_cells 24) = 0" "pos_y (corridor_cells 24) = 4"
  "type (corridor_cells 20) = TYPE_NORMAL" "type (corridor_cells 21) = TYPE_NORMAL"
  "type (corridor_cells 22) = TYPE_HOME" "type (corridor_cells 23) = TYPE_NORMAL"
  "type (corridor_cells 24) = TYPE_FOOD"
  "pheromone (corridor_cells 20) t = Num 0" "pheromone (corridor_cells 21) t = Num 0"
  "pheromone (corridor_cells 23) t = Num 0"
  "pheromone (corridor_cells 22) P_TYPE_FOOD = Num 0"
  "pheromone (corridor_cells 24) P_TYPE_FOOD = Num MAX_VALUE"
  by (simp_all add: corridor_cells_def new_Position_def changeType_def Let_def split: ptype.splits)

lemma corridor_neighbors:
  "getNeighbors example_params (corridor_world cl) 20 = [21]"
  "getNeighbors example_params (corridor_world cl) 21 = [20, 22]"
  "getNeighbors example_params (corridor_world cl) 22 = [21, 23]"
  "getNeighbors example_params (corridor_world cl) 23 = [22, 24]"
  by (simp_all add: getNeighbors_def example_params_simps corridor_simps
      Position_move_def corridor_cells_simps)

lemma corridor_draws_simps:
  "corridor_draws 10 = 1 / 2" "corridor_draws 11 = 3 / 10" "corridor_draws 12 = 1 / 2"
  "corridor_draws 13 = 1 / 2" "corridor_draws 14 = 7 / 10" "corridor_draws 15 = 1 / 2"
  "corridor_draws 16 = 1 / 2"
  by (simp_all add: corridor_draws_def)

lemmas corridor_eval =
  selectNext_def corridor_neighbors allowed_cells_cases corridor_simps
  probabilities_def desirability_loop_map spec_desirability_def spec_tau_def spec_eta_def
  example_params_simps corridor_cells_simps normalize_values_def js_gt_def
  rouletteWheel_def js_fin_small Let_def

lemma corridor_select:
  "selectNext example_params (corridor_world cl) (corridor_ant [22]) 22 (3 / 10) = Some 21"
  "selectNext example_params (corridor_world cl) (corridor_ant [22, 21]) 21 (1 / 2) = Some 20"
  "selectNext example_params (corridor_world cl) (corridor_ant [22, 21, 20]) 20 (1 / 2) = Some 21"
  "selectNext example_params (corridor_world cl) (corridor_ant [22, 21, 20, 21]) 21 (7 / 10)
     = Some 22"
  "selectNext example_params (corridor_world cl) (corridor_ant [22, 21, 20, 21, 22]) 22 (1 / 2)
     = Some 23"
  by (simp_all add: corridor_eval)

lemma corridor_select_food:
  "selectNext example_params (corridor_world cl) (corridor_ant [22, 21, 20, 21, 22, 23]) 23 (1 / 2)
     = Some 24"
proof -
  have m: "js_add (Num MAX_VALUE) (Num (1 / 100)) = Num (MAX_VALUE + 1 / 100)"
    "js_pow (Num (MAX_VALUE + 1 / 100)) (Num 1) = Num (MAX_VALUE + 1 / 100)"
    "js_mul (Num (MAX_VALUE + 1 / 100)) (Num 1) = Num (MAX_VALUE + 1 / 100)"
    "js_add (Num 0) (Num (MAX_VALUE + 1 / 100)) = Num (MAX_VALUE + 1 / 100)"
    "js_div (Num (MAX_VALUE + 1 / 100)) (Num (MAX_VALUE + 1 / 100)) = Num 1"
    "js_lt (Num 0) (Num (MAX_VALUE + 1 / 100))"
    by (simp_all add: js_fin_def MAX_VALUE_def overflow_bound_def)
  show ?thesis
    by (simp add: corridor_eval m del: js_add.simps js_pow.simps js_mul.simps js_div.simps
        js_lt.simps)
qed

lemma corridor_addCheckList:
  "addCheckList (corridor_world []) 21 = corridor_world [21]"
  "addCheckList (corridor_world [21]) 20 = corridor_world [21, 20]"
  "addCheckList (corridor_world [21, 20]) 21 = corridor_world [20, 21]"
  "addCheckList (corridor_world [20, 21]) 22 = corridor_world [20, 21, 22]"
  "addCheckList (corridor_world [20, 21, 22]) 23 = corridor_world [20, 21, 22, 23]"
  by (simp_all add: addCheckList_def corridor_world_def getCheckedIndex_def splice1_def)

lemma corridor_ant_push: "(corridor_ant p)\<lparr>path := q\<rparr> = corridor_ant q"
  by (simp add: corridor_ant_def)

lemma corridor_moves:
  "Ant_move example_params corridor_draws (corridor_world [], corridor_ant [22], 11)
     = (corridor_world [21], corridor_ant [22, 21], 12)"
  "Ant_move example_params corridor_draws (corridor_world [21], corridor_ant [22, 21], 12)
     = (corridor_world [21, 20], corridor_ant [22, 21, 20], 13)"
  "Ant_move example_params corridor_draws (corridor_world [21, 20], corridor_ant [22, 21, 20], 13)
     = (corridor_world [20, 21], corridor_ant [22, 21, 20, 21], 14)"
  "Ant_move example_params corridor_draws
     (corridor_world [20, 21], corridor_ant [22, 21, 20, 21], 14)
     = (corridor_world [20, 21, 22], corridor_ant [22, 21, 20, 21, 22], 15)"
  "Ant_move example_params corridor_draws
     (corridor_world [20, 21, 22], corridor_ant [22, 21, 20, 21, 22], 15)
     = (corridor_world [20, 21, 22, 23], corridor_ant [22, 21, 20, 21, 22, 23], 16)"
  by (simp_all add: corridor_draws_simps corridor_select corridor_neighbors corridor_simps
      corridor_cells_simps corridor_addCheckList corridor_ant_push Let_def)


lemma corridor_new_Ant:
  "new_Ant example_params (corridor_world cl) (corridor_draws 10) = corridor_ant [22]"
  by (simp add: new_Ant_def Ant_init_def corridor_ant_def corridor_simps corridor_draws_simps
      example_params_def)

lemma corridor_walk:
  "(Ant_move example_params corridor_draws ^^ 5)
     (corridor_world [], new_Ant example_params (corridor_world []) (corridor_draws 10), 11)
   = (corridor_world [20, 21, 22, 23], corridor_ant [22, 21, 20, 21, 22, 23], 16)"
proof -
  have five: "(f ^^ 5) x = f (f (f (f (f x))))" for f :: "'a \<Rightarrow> 'a" and x
    by (simp add: eval_nat_numeral)
  show ?thesis
    by (simp only: five corridor_new_Ant corridor_moves)
qed

lemma corridor_arrival:
  "fst (Ant_move example_params corridor_draws
         (corridor_world [20, 21, 22, 23], corridor_ant [22, 21, 20, 21, 22, 23], 16))
   = depositPheromone example_params (corridor_world [20, 21, 22, 23])
       (corridor_ant [22, 21, 20, 21, 22, 23, 24]) P_TYPE_FOOD"
  by (simp add: corridor_draws_simps corridor_select_food corridor_neighbors corridor_simps
      corridor_cells_simps corridor_ant_push Let_def split: prod.splits)

lemma corridor_deposit:
  "pheromone (cells (depositPheromone example_params (corridor_world [20, 21, 22, 23])
      (corridor_ant [22, 21, 20, 21, 22, 23, 24]) P_TYPE_FOOD) 21) P_TYPE_FOOD = Num (200 / 7)"
proof -
  have d: "js_div (Num 100) (Num 7) = Num (100 / 7)"
    "js_add (Num 0) (Num (100 / 7)) = Num (100 / 7)"
    "js_add (Num (100 / 7)) (Num (100 / 7)) = Num (200 / 7)"
    by (simp_all add: js_fin_def overflow_bound_def)
  have "cells (depositPheromone example_params (corridor_world [20, 21, 22, 23])
      (corridor_ant [22, 21, 20, 21, 22, 23, 24]) P_TYPE_FOOD) 21
      = (addPheromone (Num (100 / 7)) P_TYPE_FOOD ^^ 2) (corridor_cells 21)"
    by (simp add: depositPheromone_def corridor_simps example_params_simps deposit_loop_cells d
        numeral_2_eq_2 del: deposit_loop.simps js_div.simps)
  then show ?thesis
    by (simp add: numeral_2_eq_2 addPheromone_def corridor_cells_simps d
        del: js_div.simps js_add.simps)
qed

text \<open>
  C2 as stated (every Normal path cell gains exactly \<open>Q / L\<close>) fails on a path that
  visits a cell twice. In the corridor a fresh ant walks from the home cell 22 to 21
  and to the end 20, escapes the dead end back over 21 and 22, and goes on over 23 to
  the Food cell 24. On arrival it deposits along the path 22, 21, 20, 21, 22, 23, 24 of
  length 7, and the Normal cell 21 gains \<open>200 / 7\<close>, not \<open>Q / L = 100 / 7\<close>.
\<close>

theorem depositPheromone_counterexample:
  "(Ant_move example_params corridor_draws ^^ 5)
     (corridor_world [], new_Ant example_params (corridor_world []) (corridor_draws 10), 11)
     = (corridor_world [20, 21, 22, 23], corridor_ant [22, 21, 20, 21, 22, 23], 16)
   \<and> fst (Ant_move example_params corridor_draws
         (corridor_world [20, 21, 22, 23], corridor_ant [22, 21, 20, 21, 22, 23], 16))
     = depositPheromone example_params (corridor_world [20, 21, 22, 23])
         (corridor_ant [22, 21, 20, 21, 22, 23, 24]) P_TYPE_FOOD
   \<and> type (cells (corridor_world [20, 21, 22, 23]) 21) = TYPE_NORMAL
   \<and> 21 \<in> set (path (corridor_ant [22, 21, 20, 21, 22, 23, 24]))
   \<and> js_add (pheromone (cells (corridor_world [20, 21, 22, 23]) 21) P_TYPE_FOOD)
        (js_div (Q example_params)
           (Num (real (length (path (corridor_ant [22, 21, 20, 21, 22, 23, 24]))))))
     = Num (100 / 7)
   \<and> pheromone (cells (depositPheromone example_params (corridor_world [20, 21, 22, 23])
        (corridor_ant [22, 21, 20, 21, 22, 23, 24]) P_TYPE_FOOD) 21) P_TYPE_FOOD
     = Num (200 / 7)"
proof -
  have "js_add (pheromone (cells (corridor_world [20, 21, 22, 23]) 21) P_TYPE_FOOD)
        (js_div (Q example_params)
           (Num (real (length (path (corridor_ant [22, 21, 20, 21, 22, 23, 24]))))))
     = Num (100 / 7)"
    by (simp add: corridor_simps corridor_cells_simps example_params_simps js_fin_def
        overflow_bound_def)
  then show ?thesis
    using corridor_walk corridor_arrival corridor_deposit
    by (simp add: corridor_simps corridor_cells_simps)
qed

section \<open>The order of a tick\<close>

lemma spawn_loop_step:
  "int (length (antList s)) < ANT_NUMBER P \<Longrightarrow>
   spawn_loop P rnd s = spawn_loop P rnd (push_new_Ant P rnd s)"
  by (subst spawn_loop.simps) simp

lemma spawn_loop_stop: "\<not> int (length (antList s)) < ANT_NUMBER P \<Longrightarrow> spawn_loop P rnd s = s"
  by (subst spawn_loop.simps) simp

lemma ants_loop_step:
  "i < length (antList s) \<Longrightarrow>
   ants_loop P rnd s i = ants_loop P rnd (move_ant P rnd s i) (i + 1)"
  by (subst ants_loop.simps) simp

lemma ants_loop_stop: "\<not> i < length (antList s) \<Longrightarrow> ants_loop P rnd s i = s"
  by (subst ants_loop.simps) simp

lemma steps_loop_step:
  "step < stepsPerTick P \<Longrightarrow>
   steps_loop P rnd s step = steps_loop P rnd (ants_loop P rnd s 0) (step + 1)"
  by (subst steps_loop.simps) simp

lemma steps_loop_stop: "\<not> step < stepsPerTick P \<Longrightarrow> steps_loop P rnd s step = s"
  by (subst steps_loop.simps) simp

lemma push_new_Ant_simps [simp]:
  "calls (push_new_Ant P rnd s) = calls s @ [Call_new_Ant]"
  "length (antList (push_new_Ant P rnd s)) = Suc (length (antList s))"
  "world (push_new_Ant P rnd s) = world s"
  by (simp_all add: push_new_Ant_def)

lemma spawn_loop_effect:
  "calls (spawn_loop P rnd s)
     = calls s @ replicate (nat (ANT_NUMBER P - int (length (antList s)))) Call_new_Ant
   \<and> length (antList (spawn_loop P rnd s))
     = length (antList s) + nat (ANT_NUMBER P - int (length (antList s)))
   \<and> world (spawn_loop P rnd s) = world s"
proof (induction P rnd s rule: spawn_loop.induct)
  case (1 P rnd s)
  show ?case
  proof (cases "int (length (antList s)) < ANT_NUMBER P")
    case False
    then show ?thesis by (simp add: spawn_loop_stop)
  next
    case True
    then have k: "nat (ANT_NUMBER P - int (length (antList s)))
        = Suc (nat (ANT_NUMBER P - int (Suc (length (antList s)))))"
      by simp
    have unf: "spawn_loop P rnd s = spawn_loop P rnd (push_new_Ant P rnd s)"
      using True by (rule spawn_loop_step)
    from "1.IH" [OF True] show ?thesis
      by (simp only: unf k push_new_Ant_simps replicate_Suc) simp
  qed
qed

lemma move_ant_calls [simp]: "calls (move_ant P rnd s i) = calls s @ [Call_move i]"
  by (simp add: move_ant_def split: prod.splits)

lemma ants_loop_effect:
  "i \<le> length (antList s) \<Longrightarrow>
   calls (ants_loop P rnd s i) = calls s @ map Call_move [i..<length (antList s)]
   \<and> length (antList (ants_loop P rnd s i)) = length (antList s)"
proof (induction P rnd s i rule: ants_loop.induct)
  case (1 P rnd s i)
  show ?case
  proof (cases "i < length (antList s)")
    case False
    with "1.prems" show ?thesis by (simp add: ants_loop_stop)
  next
    case True
    have unf: "ants_loop P rnd s i = ants_loop P rnd (move_ant P rnd s i) (i + 1)"
      using True by (rule ants_loop_step)
    from True have "i + 1 \<le> length (antList (move_ant P rnd s i))" by simp
    from "1.IH" [OF True this] True show ?thesis
      by (simp only: unf) (simp add: upt_conv_Cons)
  qed
qed

lemma steps_loop_effect:
  "calls (steps_loop P rnd s step)
     = calls s @ concat (replicate (nat (stepsPerTick P - step))
                           (map Call_move [0..<length (antList s)]))
   \<and> length (antList (steps_loop P rnd s step)) = length (antList s)"
proof (induction P rnd s step rule: steps_loop.induct)
  case (1 P rnd s step)
  show ?case
  proof (cases "step < stepsPerTick P")
    case False
    then show ?thesis by (simp add: steps_loop_stop)
  next
    case True
    then have k: "nat (stepsPerTick P - step) = Suc (nat (stepsPerTick P - (step + 1)))"
      by simp
    have unf: "steps_loop P rnd s step = steps_loop P rnd (ants_loop P rnd s 0) (step + 1)"
      using True by (rule steps_loop_step)
    from "1.IH" [OF True] ants_loop_effect [of 0 s P rnd] show ?thesis
      by (simp only: unf k replicate_Suc) simp
  qed
qed

text \<open>
  The effect of the loops on the world, the ant list and the draw count: each
  \<^verbatim>\<open>antList[i].move()\<close> is \<open>Ant_move\<close> on the ant at index \<open>i\<close>, and the loops fold it over
  the indices.
\<close>

lemma move_ant_state:
  "(world (move_ant P rnd s i), antList (move_ant P rnd s i), draws (move_ant P rnd s i))
     = (case Ant_move P rnd (world s, antList s ! i, draws s) of
          (w, a, d) \<Rightarrow> (w, (antList s)[i := a], d))"
  by (simp add: move_ant_def split: prod.splits)

lemma ants_loop_fold:
  "i \<le> length (antList s) \<Longrightarrow>
   (world (ants_loop P rnd s i), antList (ants_loop P rnd s i), draws (ants_loop P rnd s i))
     = fold (\<lambda>j (w, ants, d). case Ant_move P rnd (w, ants ! j, d) of
                                 (w', a', d') \<Rightarrow> (w', ants[j := a'], d'))
         [i..<length (antList s)] (world s, antList s, draws s)"
proof (induction P rnd s i rule: ants_loop.induct)
  case (1 P rnd s i)
  show ?case
  proof (cases "i < length (antList s)")
    case False
    with "1.prems" show ?thesis by (simp add: ants_loop_stop)
  next
    case True
    have unf: "ants_loop P rnd s i = ants_loop P rnd (move_ant P rnd s i) (i + 1)"
      using True by (rule ants_loop_step)
    from True have "i + 1 \<le> length (antList (move_ant P rnd s i))" by simp
    from "1.IH" [OF True this] True show ?thesis
      by (simp only: unf upt_conv_Cons [OF True] fold_Cons o_apply length_antList_move_ant
          move_ant_state Suc_eq_plus1) simp
  qed
qed

lemma steps_loop_fold:
  "(world (steps_loop P rnd s step), antList (steps_loop P rnd s step),
    draws (steps_loop P rnd s step))
     = fold (\<lambda>j (w, ants, d). case Ant_move P rnd (w, ants ! j, d) of
                                 (w', a', d') \<Rightarrow> (w', ants[j := a'], d'))
         (concat (replicate (nat (stepsPerTick P - step)) [0..<length (antList s)]))
         (world s, antList s, draws s)"
proof (induction P rnd s step rule: steps_loop.induct)
  case (1 P rnd s step)
  show ?case
  proof (cases "step < stepsPerTick P")
    case False
    then show ?thesis by (simp add: steps_loop_stop)
  next
    case True
    then have k: "nat (stepsPerTick P - step) = Suc (nat (stepsPerTick P - (step + 1)))"
      by simp
    have unf: "steps_loop P rnd s step = steps_loop P rnd (ants_loop P rnd s 0) (step + 1)"
      using True by (rule steps_loop_step)
    have len: "length (antList (ants_loop P rnd s 0)) = length (antList s)"
      using ants_loop_effect [of 0 s P rnd] by simp
    from "1.IH" [OF True] show ?thesis
      by (simp only: unf k replicate_Suc concat.simps fold_append o_apply len
          ants_loop_fold [of 0 s P rnd, OF le0, symmetric])
  qed
qed

lemma push_new_Ant_state:
  "antList (push_new_Ant P rnd s) = antList s @ [new_Ant P (world s) (rnd (draws s))]"
  "draws (push_new_Ant P rnd s) = draws s + 1"
  by (simp_all add: push_new_Ant_def)

lemma spawn_loop_state:
  "antList (spawn_loop P rnd s)
     = antList s @ map (\<lambda>j. new_Ant P (world s) (rnd (draws s + j)))
                     [0..<nat (ANT_NUMBER P - int (length (antList s)))]
   \<and> draws (spawn_loop P rnd s) = draws s + nat (ANT_NUMBER P - int (length (antList s)))"
proof (induction P rnd s rule: spawn_loop.induct)
  case (1 P rnd s)
  show ?case
  proof (cases "int (length (antList s)) < ANT_NUMBER P")
    case False
    then show ?thesis by (simp add: spawn_loop_stop)
  next
    case True
    define k where "k = nat (ANT_NUMBER P - int (Suc (length (antList s))))"
    from True have k: "nat (ANT_NUMBER P - int (length (antList s))) = Suc k"
      by (simp add: k_def)
    have unf: "spawn_loop P rnd s = spawn_loop P rnd (push_new_Ant P rnd s)"
      using True by (rule spawn_loop_step)
    have m: "map f [0..<Suc k] = f 0 # map (\<lambda>j. f (Suc j)) [0..<k]" for f :: "nat \<Rightarrow> Ant"
      by (simp only: upt_conv_Cons [OF zero_less_Suc] map_Suc_upt [symmetric] list.map map_map o_def)
    from "1.IH" [OF True] show ?thesis
      by (simp only: unf k m push_new_Ant_state push_new_Ant_simps k_def [symmetric])
         (simp add: k_def)
  qed
qed

text \<open>A move and a new ant do not depend on the configured number of ants.\<close>

lemma desirability_loop_ANT_NUMBER [simp]:
  "desirability_loop (P\<lparr>ANT_NUMBER := n\<rparr>) w a cs vals sum_v = desirability_loop P w a cs vals sum_v"
  by (induction cs arbitrary: vals sum_v) (simp_all add: Let_def)

lemma selectNext_ANT_NUMBER [simp]:
  "selectNext (P\<lparr>ANT_NUMBER := n\<rparr>) w a current r = selectNext P w a current r"
  by (simp add: selectNext_def getNeighbors_def allowed_cells_def probabilities_def)

lemma getNeighbors_ANT_NUMBER [simp]:
  "getNeighbors (P\<lparr>ANT_NUMBER := n\<rparr>) w current = getNeighbors P w current"
  by (simp add: getNeighbors_def)

lemma depositPheromone_ANT_NUMBER [simp]:
  "depositPheromone (P\<lparr>ANT_NUMBER := n\<rparr>) w a t = depositPheromone P w a t"
  by (simp add: depositPheromone_def Let_def)

lemma Ant_init_ANT_NUMBER [simp]: "Ant_init (P\<lparr>ANT_NUMBER := n\<rparr>) w a r = Ant_init P w a r"
  by (simp add: Ant_init_def)

lemma Ant_move_ANT_NUMBER [simp]: "Ant_move (P\<lparr>ANT_NUMBER := n\<rparr>) rnd x = Ant_move P rnd x"
proof -
  have "selectNext (P\<lparr>ANT_NUMBER := n\<rparr>) = selectNext P"
    "getNeighbors (P\<lparr>ANT_NUMBER := n\<rparr>) = getNeighbors P"
    "depositPheromone (P\<lparr>ANT_NUMBER := n\<rparr>) = depositPheromone P"
    "Ant_init (P\<lparr>ANT_NUMBER := n\<rparr>) = Ant_init P"
    by (intro ext, simp)+
  then show ?thesis by (cases x) (simp only: Ant_move.simps)
qed

lemma new_Ant_ANT_NUMBER [simp]: "new_Ant (P\<lparr>ANT_NUMBER := n\<rparr>) w r = new_Ant P w r"
  by (simp add: new_Ant_def Ant_init_def)

text \<open>
  C7. A tick of the running simulation (\<^verbatim>\<open>_run\<close> with the world defined, the
  settings applied and the simulation started) first creates ants until the list holds
  \<^verbatim>\<open>ANT_NUMBER\<close> of them. Then, \<^verbatim>\<open>stepsPerTick\<close> times, it moves every ant once, in the
  order of the list: the world, the ant list and the draw count after the sub-steps are
  the fold of \<open>Ant_move\<close>, applied to the ant at index \<open>i\<close>, over \<^verbatim>\<open>stepsPerTick\<close>
  copies of the index list \<open>0, ..., n - 1\<close>. Then it calls \<^verbatim>\<open>evaporateAndRender\<close> once,
  on the world the sub-steps left. The calls are made in this order. Otherwise the call
  of \<^verbatim>\<open>_run\<close> changes nothing.
\<close>

theorem run_tick_order:
  "(\<not> isRun s \<and> world_defined s \<and> isSettingsApplied s \<and> isSimulationStarted s \<longrightarrow>
      (let k = nat (ANT_NUMBER P - int (length (antList s)));
           spawned = antList s @ map (\<lambda>j. new_Ant P (world s) (rnd (draws s + j))) [0..<k];
           n = length (antList s) + k
       in calls (run P rnd s)
            = calls s
              @ replicate k Call_new_Ant
              @ concat (replicate (nat (stepsPerTick P)) (map Call_move [0..<n]))
              @ [Call_evaporateAndRender]
          \<and> length (antList (run P rnd s)) = n
          \<and> (world (run P rnd s), antList (run P rnd s), draws (run P rnd s))
            = (case fold (\<lambda>i (w, ants, d). case Ant_move P rnd (w, ants ! i, d) of
                                            (w', a', d') \<Rightarrow> (w', ants[i := a'], d'))
                      (concat (replicate (nat (stepsPerTick P)) [0..<n]))
                      (world s, spawned, draws s + k)
               of (w, ants, d) \<Rightarrow> (evaporateAndRender P w, ants, d))
          \<and> \<not> isRun (run P rnd s)))
   \<and> (\<not> (\<not> isRun s \<and> world_defined s \<and> isSettingsApplied s \<and> isSimulationStarted s) \<longrightarrow>
       calls (run P rnd s) = calls s \<and> world (run P rnd s) = world s
     \<and> antList (run P rnd s) = antList s \<and> draws (run P rnd s) = draws s)"
proof (intro conjI impI)
  assume g: "\<not> isRun s \<and> world_defined s \<and> isSettingsApplied s \<and> isSimulationStarted s"
  define k where "k = nat (ANT_NUMBER P - int (length (antList s)))"
  define spawned where
    "spawned = antList s @ map (\<lambda>j. new_Ant P (world s) (rnd (draws s + j))) [0..<k]"
  define n where "n = length (antList s) + k"
  define s1 where "s1 = s\<lparr>isRun := True\<rparr>"
  define s2 where "s2 = spawn_loop P rnd s1"
  define s3 where "s3 = steps_loop P rnd s2 0"
  have r: "run P rnd s = (call_evaporateAndRender P s3)\<lparr>isRun := False\<rparr>"
    using g by (simp add: run_def s1_def s2_def s3_def)
  have a: "calls s2 = calls s @ replicate k Call_new_Ant"
    and b: "length (antList s2) = n"
    and w2: "world s2 = world s"
    using spawn_loop_effect [of P rnd s1] by (simp_all add: s2_def s1_def k_def n_def)
  have l2: "antList s2 = spawned" and d2: "draws s2 = draws s + k"
    using spawn_loop_state [of P rnd s1] by (simp_all add: s2_def s1_def k_def spawned_def)
  have c: "calls s3 = calls s2 @ concat (replicate (nat (stepsPerTick P))
                           (map Call_move [0..<length (antList s2)]))"
    and d: "length (antList s3) = length (antList s2)"
    using steps_loop_effect [of P rnd s2 0] by (simp_all add: s3_def)
  have f: "fold (\<lambda>i (w, ants, d). case Ant_move P rnd (w, ants ! i, d) of
                                            (w', a', d') \<Rightarrow> (w', ants[i := a'], d'))
                      (concat (replicate (nat (stepsPerTick P)) [0..<n]))
                      (world s, spawned, draws s + k)
      = (world s3, antList s3, draws s3)"
    using steps_loop_fold [of P rnd s2 0] b
    by (simp only: s3_def [symmetric] l2 w2 d2 diff_zero)
  have "calls (run P rnd s)
            = calls s
              @ replicate k Call_new_Ant
              @ concat (replicate (nat (stepsPerTick P)) (map Call_move [0..<n]))
              @ [Call_evaporateAndRender]"
    by (simp add: r call_evaporateAndRender_def a b c)
  moreover have "length (antList (run P rnd s)) = n"
    by (simp add: r call_evaporateAndRender_def b d)
  moreover have "(world (run P rnd s), antList (run P rnd s), draws (run P rnd s))
            = (case fold (\<lambda>i (w, ants, d). case Ant_move P rnd (w, ants ! i, d) of
                                            (w', a', d') \<Rightarrow> (w', ants[i := a'], d'))
                      (concat (replicate (nat (stepsPerTick P)) [0..<n]))
                      (world s, spawned, draws s + k)
               of (w, ants, d) \<Rightarrow> (evaporateAndRender P w, ants, d))"
    by (simp only: f) (simp add: r call_evaporateAndRender_def del: Ant_move.simps)
  moreover have "\<not> isRun (run P rnd s)" by (simp add: r)
  ultimately show "let k = nat (ANT_NUMBER P - int (length (antList s)));
           spawned = antList s @ map (\<lambda>j. new_Ant P (world s) (rnd (draws s + j))) [0..<k];
           n = length (antList s) + k
       in calls (run P rnd s)
            = calls s
              @ replicate k Call_new_Ant
              @ concat (replicate (nat (stepsPerTick P)) (map Call_move [0..<n]))
              @ [Call_evaporateAndRender]
          \<and> length (antList (run P rnd s)) = n
          \<and> (world (run P rnd s), antList (run P rnd s), draws (run P rnd s))
            = (case fold (\<lambda>i (w, ants, d). case Ant_move P rnd (w, ants ! i, d) of
                                            (w', a', d') \<Rightarrow> (w', ants[i := a'], d'))
                      (concat (replicate (nat (stepsPerTick P)) [0..<n]))
                      (world s, spawned, draws s + k)
               of (w, ants, d) \<Rightarrow> (evaporateAndRender P w, ants, d))
          \<and> \<not> isRun (run P rnd s)"
    unfolding Let_def k_def [symmetric] spawned_def [symmetric] n_def [symmetric] by blast
next
  assume n: "\<not> (\<not> isRun s \<and> world_defined s \<and> isSettingsApplied s \<and> isSimulationStarted s)"
  then show "calls (run P rnd s) = calls s" "world (run P rnd s) = world s"
    "antList (run P rnd s) = antList s" "draws (run P rnd s) = draws s"
    by (auto simp: run_def)
qed

theorem run_tick_order_witness:
  "calls (run (example_params\<lparr>ANT_NUMBER := 2, stepsPerTick := 2\<rparr>) (\<lambda>k. 1 / 2) example_sim)
     = [Call_new_Ant, Call_new_Ant, Call_move 0, Call_move 1, Call_move 0, Call_move 1,
        Call_evaporateAndRender]
   \<and> length (antList (run (example_params\<lparr>ANT_NUMBER := 2, stepsPerTick := 2\<rparr>) (\<lambda>k. 1 / 2)
        example_sim)) = 2
   \<and> calls (run (example_params\<lparr>ANT_NUMBER := 2, stepsPerTick := 2\<rparr>) (\<lambda>k. 1 / 2)
        (example_sim\<lparr>isSimulationStarted := False\<rparr>)) = []
   \<and> (world (run (example_params\<lparr>ANT_NUMBER := 1\<rparr>) corridor_draws corridor_sim),
      antList (run (example_params\<lparr>ANT_NUMBER := 1\<rparr>) corridor_draws corridor_sim),
      draws (run (example_params\<lparr>ANT_NUMBER := 1\<rparr>) corridor_draws corridor_sim))
     = (evaporateAndRender (example_params\<lparr>ANT_NUMBER := 1\<rparr>) (corridor_world [20, 21, 22, 23]),
        [corridor_ant [22, 21, 20, 21, 22, 23]], 16)"
proof -
  let ?P = "example_params\<lparr>ANT_NUMBER := 2, stepsPerTick := 2\<rparr>"
  have p: "ANT_NUMBER ?P = 2" "stepsPerTick ?P = 2" by simp_all
  have s: "\<not> isRun example_sim" "world_defined example_sim" "isSettingsApplied example_sim"
    "isSimulationStarted example_sim" "antList example_sim = []" "calls example_sim = []"
    by (simp_all add: example_sim_def)
  have two: "replicate 2 x = [x, x]" for x :: "'a" by (simp add: numeral_2_eq_2)
  have upt2: "[0..<2] = [0, 1]" by (simp add: numeral_2_eq_2)
  from run_tick_order [of example_sim ?P "\<lambda>k. 1 / 2"] s(1-4)
  have "calls (run ?P (\<lambda>k. 1 / 2) example_sim)
       = calls example_sim
         @ replicate (nat (ANT_NUMBER ?P - int (length (antList example_sim)))) Call_new_Ant
         @ concat (replicate (nat (stepsPerTick ?P))
             (map Call_move
                [0..<length (antList example_sim)
                      + nat (ANT_NUMBER ?P - int (length (antList example_sim)))]))
         @ [Call_evaporateAndRender]"
    and "length (antList (run ?P (\<lambda>k. 1 / 2) example_sim))
       = length (antList example_sim) + nat (ANT_NUMBER ?P - int (length (antList example_sim)))"
    unfolding Let_def by blast+
  then have a: "calls (run ?P (\<lambda>k. 1 / 2) example_sim)
     = [Call_new_Ant, Call_new_Ant, Call_move 0, Call_move 1, Call_move 0, Call_move 1,
        Call_evaporateAndRender]"
    and b: "length (antList (run ?P (\<lambda>k. 1 / 2) example_sim)) = 2"
    by (simp_all add: p s(5,6) two upt2)
  from run_tick_order [of "example_sim\<lparr>isSimulationStarted := False\<rparr>" ?P "\<lambda>k. 1 / 2"] s(6)
  have c: "calls (run ?P (\<lambda>k. 1 / 2) (example_sim\<lparr>isSimulationStarted := False\<rparr>)) = []"
    by simp
  let ?Q = "example_params\<lparr>ANT_NUMBER := 1\<rparr>"
  have q: "nat (ANT_NUMBER ?Q - int (length (antList corridor_sim))) = 1"
    "nat (stepsPerTick ?Q) = 5" "length (antList corridor_sim) = 0"
    "antList corridor_sim = []" "world corridor_sim = corridor_world []"
    "draws corridor_sim = 10"
    by (simp_all add: corridor_sim_def example_params_def)
  have g: "\<not> isRun corridor_sim" "world_defined corridor_sim" "isSettingsApplied corridor_sim"
    "isSimulationStarted corridor_sim"
    by (simp_all add: corridor_sim_def)
  have five: "concat (replicate 5 [0..<0 + 1]) = [0, 0, 0, 0, 0::nat]"
    by (simp add: eval_nat_numeral)
  have one: "map f [0..<1] = [f 0]" for f :: "nat \<Rightarrow> Ant" by simp
  have unroll: "(f ^^ 5) x = f (f (f (f (f x))))"
    for f :: "World \<times> Ant list \<times> nat \<Rightarrow> World \<times> Ant list \<times> nat" and x
    by (simp add: eval_nat_numeral)
  from run_tick_order [of corridor_sim ?Q corridor_draws] g
  have "(world (run ?Q corridor_draws corridor_sim), antList (run ?Q corridor_draws corridor_sim),
         draws (run ?Q corridor_draws corridor_sim))
     = (case fold (\<lambda>i (w, ants, d). case Ant_move ?Q corridor_draws (w, ants ! i, d) of
                                            (w', a', d') \<Rightarrow> (w', ants[i := a'], d'))
                      (concat (replicate (nat (stepsPerTick ?Q))
                         [0..<length (antList corridor_sim)
                               + nat (ANT_NUMBER ?Q - int (length (antList corridor_sim)))]))
                      (world corridor_sim,
                       antList corridor_sim
                         @ map (\<lambda>j. new_Ant ?Q (world corridor_sim)
                                   (corridor_draws (draws corridor_sim + j)))
                             [0..<nat (ANT_NUMBER ?Q - int (length (antList corridor_sim)))],
                       draws corridor_sim
                         + nat (ANT_NUMBER ?Q - int (length (antList corridor_sim))))
               of (w, ants, d) \<Rightarrow> (evaporateAndRender ?Q w, ants, d))"
    unfolding Let_def by blast
  then have d: "(world (run ?Q corridor_draws corridor_sim),
      antList (run ?Q corridor_draws corridor_sim),
      draws (run ?Q corridor_draws corridor_sim))
     = (evaporateAndRender ?Q (corridor_world [20, 21, 22, 23]),
        [corridor_ant [22, 21, 20, 21, 22, 23]], 16)"
    by (simp only: q five one)
       (simp add: corridor_new_Ant corridor_moves unroll del: Ant_move.simps)
  from a b c d show ?thesis by blast
qed

end
